theory Spec2Isabelle
  imports Main "HOL-Library.Word"
begin

section \<open>The vsync engine of engines/sync.c\<close>

text \<open>
  The engine batches contiguous read/write requests and issues them with one
  \<^verbatim>\<open>readv\<close>/\<^verbatim>\<open>writev\<close>. Its state is \<^verbatim>\<open>struct syncio_data\<close>; the requests
  (\<^verbatim>\<open>struct io_u\<close>) belong to the caller and are reached through pointers. The
  \<^verbatim>\<open>sync\<close> and \<^verbatim>\<open>psync\<close> engines of the same file share only \<^verbatim>\<open>fio_io_end\<close> with it.

  Integer widths follow the LP64 data model: \<^verbatim>\<open>int\<close> and \<^verbatim>\<open>unsigned int\<close> are 32-bit
  words (a signed value is read with \<open>sint\<close>), \<^verbatim>\<open>unsigned long\<close>, \<^verbatim>\<open>ssize_t\<close>, \<^verbatim>\<open>off_t\<close>
  and \<^verbatim>\<open>unsigned long long\<close> are 64-bit words. C's conversions are written out:
  \<open>ucast\<close> truncates or zero-extends, \<open>scast\<close> sign-extends.
\<close>

subsection \<open>Data\<close>

type_synonym addr = nat  \<comment> \<open>a pointer; \<open>0\<close> is \<^verbatim>\<open>NULL\<close>\<close>
type_synonym u32 = "32 word"
type_synonym u64 = "64 word"

text \<open>\<^verbatim>\<open>enum fio_ddir\<close>: the directions this file names; \<^verbatim>\<open>DDIR_READ\<close> has value 0.\<close>

datatype fio_ddir = DDIR_READ | DDIR_WRITE | DDIR_SYNC

text \<open>The return codes of an engine's \<^verbatim>\<open>queue\<close> hook.\<close>

datatype fio_q_status = FIO_Q_COMPLETED | FIO_Q_QUEUED | FIO_Q_BUSY

text \<open>
  The fields of \<^verbatim>\<open>struct io_u\<close> that this file reads or writes: \<^verbatim>\<open>xfer_buflen\<close> is an
  \<^verbatim>\<open>unsigned long\<close>, \<^verbatim>\<open>offset\<close> an \<^verbatim>\<open>unsigned long long\<close>, \<^verbatim>\<open>resid\<close> and \<^verbatim>\<open>error\<close> are
  \<^verbatim>\<open>unsigned int\<close>.
\<close>

record io_u =
  ddir :: fio_ddir
  "file" :: addr
  offset :: u64
  xfer_buf :: addr
  xfer_buflen :: u64
  resid :: u32
  error :: u32

record iovec =
  iov_base :: addr
  iov_len :: u64

text \<open>
  \<^verbatim>\<open>struct syncio_data\<close>. The two arrays are memory indexed from their base pointer:
  \<^verbatim>\<open>init\<close> allocates \<^verbatim>\<open>iodepth\<close> cells each and does not initialise them.
\<close>

record syncio_data =
  iovecs :: "int \<Rightarrow> iovec"
  io_us :: "int \<Rightarrow> addr"
  queued :: u32
  queued_bytes :: u64
  last_offset :: u64
  last_file :: addr
  last_ddir :: fio_ddir

text \<open>The system calls the engine makes, with the arguments it passes.\<close>

datatype syscall =
    Lseek u32 u64
  | Readv u32 "iovec list"
  | Writev u32 "iovec list"
  | Fsync u32

text \<open>
  What the functions of the engine can see and change: \<^verbatim>\<open>td->o.iodepth\<close>, the engine data
  \<^verbatim>\<open>td->io_ops->data\<close>, the caller's requests (\<open>mem\<close>, by address), the descriptor
  \<^verbatim>\<open>f->fd\<close> of each file (\<open>fds\<close>, by the address of the \<^verbatim>\<open>struct fio_file\<close>),
  \<^verbatim>\<open>errno\<close>, what was reported through \<^verbatim>\<open>td_verror\<close>, and the system calls made so far.
\<close>

record state =
  iodepth :: u32
  sd :: syncio_data
  mem :: "addr \<Rightarrow> io_u"
  fds :: "addr \<Rightarrow> u32"
  errno :: u32
  verrors :: "(u32 \<times> string) list"
  syscalls :: "syscall list"

text \<open>
  The outcome of a system call is an input of the model: the value the call returned and
  the value \<^verbatim>\<open>errno\<close> has after it.
\<close>

type_synonym 'a sysret = "'a \<times> u32"

subsection \<open>Operations\<close>

text \<open>
  Modelled from the spec: the macro \<^verbatim>\<open>td_verror\<close> is not defined in this file. The spec's
  error reporting sink "receives (error-code, operation-label)"; the model appends the
  pair to \<open>verrors\<close>.
\<close>

definition td_verror :: "state \<Rightarrow> u32 \<Rightarrow> string \<Rightarrow> state" where
  "td_verror s e label = s\<lparr>verrors := verrors s @ [(e, label)]\<rparr>"

text \<open>
  \<^verbatim>\<open>fio_io_end(td, io_u, ret)\<close>, for the request at address \<open>p\<close>. The comparison is
  between \<^verbatim>\<open>int\<close>s (\<^verbatim>\<open>(int) io_u->xfer_buflen\<close> truncates); the subtraction is in
  \<^verbatim>\<open>unsigned long\<close> and its result is stored in the 32-bit \<^verbatim>\<open>resid\<close>.
\<close>

definition fio_io_end :: "state \<Rightarrow> addr \<Rightarrow> u32 \<Rightarrow> fio_q_status \<times> state" where
  "fio_io_end s p ret =
     (let io = mem s p;
          report = (\<lambda>s1. (FIO_Q_COMPLETED,
                      if error (mem s1 p) \<noteq> 0 then td_verror s1 (error (mem s1 p)) ''xfer''
                      else s1))
      in if ret \<noteq> ucast (xfer_buflen io) then
           (if 0 \<le> sint ret then
              (FIO_Q_COMPLETED,
               s\<lparr>mem := (mem s)
                   (p := io\<lparr>resid := ucast (xfer_buflen io - scast ret), error := 0\<rparr>)\<rparr>)
            else report (s\<lparr>mem := (mem s)(p := io\<lparr>error := errno s\<rparr>)\<rparr>))
         else report s)"

text \<open>
  \<^verbatim>\<open>fio_vsyncio_getevents(td, min, max, t)\<close>: the \<^verbatim>\<open>int\<close> it returns holds the bits of
  the \<^verbatim>\<open>unsigned int\<close> \<^verbatim>\<open>sd->queued\<close>.
\<close>

definition fio_vsyncio_getevents :: "state \<Rightarrow> u32 \<Rightarrow> u32 \<Rightarrow> u32 \<times> state" where
  "fio_vsyncio_getevents s min_ev max_ev =
     (if min_ev \<noteq> 0 then (queued (sd s), s\<lparr>sd := (sd s)\<lparr>queued := 0\<rparr>\<rparr>)
      else (0, s))"

text \<open>\<^verbatim>\<open>fio_vsyncio_event(td, event)\<close>: the index is an \<^verbatim>\<open>int\<close>.\<close>

definition fio_vsyncio_event :: "state \<Rightarrow> u32 \<Rightarrow> addr" where
  "fio_vsyncio_event s event = io_us (sd s) (sint event)"

text \<open>\<^verbatim>\<open>fio_vsyncio_append(td, io_u)\<close>: \<open>True\<close> is the return value 1.\<close>

definition fio_vsyncio_append :: "state \<Rightarrow> addr \<Rightarrow> bool" where
  "fio_vsyncio_append s p =
     (let io = mem s p in
      if ddir io = DDIR_SYNC then False
      else if offset io = last_offset (sd s) \<and> file io = last_file (sd s)
              \<and> ddir io = last_ddir (sd s) then True
      else False)"

text \<open>
  \<^verbatim>\<open>fio_vsyncio_set_iov(sd, io_u, index)\<close>: \<open>p\<close> is the pointer stored, \<open>io\<close> the request it
  points to; \<^verbatim>\<open>index\<close> is an \<^verbatim>\<open>int\<close>.
\<close>

definition fio_vsyncio_set_iov :: "syncio_data \<Rightarrow> addr \<Rightarrow> io_u \<Rightarrow> u32 \<Rightarrow> syncio_data" where
  "fio_vsyncio_set_iov d p io index =
     d\<lparr>io_us := (io_us d)(sint index := p),
       iovecs := (iovecs d)(sint index := \<lparr>iov_base = xfer_buf io, iov_len = xfer_buflen io\<rparr>),
       last_offset := offset io + xfer_buflen io,
       last_file := file io,
       last_ddir := ddir io,
       queued_bytes := queued_bytes d + xfer_buflen io,
       queued := queued d + 1\<rparr>"

text \<open>
  \<^verbatim>\<open>fio_vsyncio_queue(td, io_u)\<close>. \<open>fs\<close> is the outcome of the \<^verbatim>\<open>fsync\<close> the function makes
  for a sync request on an empty batch. \<^verbatim>\<open>fio_ro_check\<close> is an assertion defined outside
  this file and \<^verbatim>\<open>dprint\<close> writes a debug log; neither touches the state modelled here.
\<close>

definition fio_vsyncio_queue :: "state \<Rightarrow> addr \<Rightarrow> u32 sysret \<Rightarrow> fio_q_status \<times> state" where
  "fio_vsyncio_queue s p fs =
     (if \<not> fio_vsyncio_append s p then
        (if queued (sd s) \<noteq> 0 then (FIO_Q_BUSY, s)
         else if ddir (mem s p) = DDIR_SYNC then
           fio_io_end
             (s\<lparr>syscalls := syscalls s @ [Fsync (fds s (file (mem s p)))], errno := snd fs\<rparr>)
             p (fst fs)
         else
           (FIO_Q_QUEUED,
            s\<lparr>sd := fio_vsyncio_set_iov ((sd s)\<lparr>queued := 0, queued_bytes := 0\<rparr>) p (mem s p) 0\<rparr>))
      else
        (if queued (sd s) = iodepth s then (FIO_Q_BUSY, s)
         else
           (FIO_Q_QUEUED,
            s\<lparr>sd := fio_vsyncio_set_iov (sd s) p (mem s p) (queued (sd s))\<rparr>)))"

text \<open>
  The body of the loop of \<^verbatim>\<open>fio_vsyncio_end\<close> for one request \<open>io\<close>, on a byte
  count other than \<open>-1\<close>: \<^verbatim>\<open>this_io\<close> is an \<^verbatim>\<open>unsigned int\<close>, so \<^verbatim>\<open>this_io = bytes\<close>
  keeps the low 32 bits; the comparison with \<^verbatim>\<open>xfer_buflen\<close> and the subtractions are
  64-bit.
\<close>

definition this_io :: "u64 \<Rightarrow> io_u \<Rightarrow> u32" where
  "this_io bytes io =
     (if xfer_buflen io < ucast (ucast bytes :: u32) then ucast (xfer_buflen io)
      else ucast bytes)"

definition end_io_u :: "u32 \<Rightarrow> u64 \<Rightarrow> io_u \<Rightarrow> io_u" where
  "end_io_u err bytes io =
     (if bytes = - 1 then io\<lparr>error := err\<rparr>
      else io\<lparr>resid := ucast (xfer_buflen io - ucast (this_io bytes io)), error := 0\<rparr>)"

definition end_bytes :: "u64 \<Rightarrow> io_u \<Rightarrow> u64" where
  "end_bytes bytes io =
     (if bytes = - 1 then bytes else bytes - ucast (this_io bytes io))"

text \<open>
  The loop \<^verbatim>\<open>for (i = 0; i < sd->queued; i++)\<close> from index \<open>i\<close> on: it returns the final
  \<^verbatim>\<open>bytes\<close> and the requests as it leaves them. The counter stays below \<^verbatim>\<open>sd->queued\<close>,
  so it cannot wrap and is a \<open>nat\<close> here.
\<close>

function fio_vsyncio_end_loop ::
  "syncio_data \<Rightarrow> u32 \<Rightarrow> nat \<Rightarrow> u64 \<Rightarrow> (addr \<Rightarrow> io_u) \<Rightarrow> u64 \<times> (addr \<Rightarrow> io_u)" where
  "fio_vsyncio_end_loop d err i bytes m =
     (if i < unat (queued d) then
        fio_vsyncio_end_loop d err (Suc i)
          (end_bytes bytes (m (io_us d (int i))))
          (m(io_us d (int i) := end_io_u err bytes (m (io_us d (int i)))))
      else (bytes, m))"
  by pat_completeness auto
termination
  by (relation "measure (\<lambda>(d, err, i, bytes, m). unat (queued d) - i)") auto

text \<open>\<^verbatim>\<open>fio_vsyncio_end(td, bytes)\<close>: the \<^verbatim>\<open>int\<close> result and the state.\<close>

definition fio_vsyncio_end :: "state \<Rightarrow> u64 \<Rightarrow> u32 \<times> state" where
  "fio_vsyncio_end s bytes =
     (if bytes = queued_bytes (sd s) then (0, s)
      else
        (let err = errno s;
             r = fio_vsyncio_end_loop (sd s) err 0 bytes (mem s);
             s1 = s\<lparr>mem := snd r\<rparr>
         in if fst r = - 1 then (- err, td_verror s1 err ''xfer vsync'')
            else (0, s1)))"

text \<open>
  \<^verbatim>\<open>fio_vsyncio_commit(td)\<close>. \<open>ls\<close> is the outcome of \<^verbatim>\<open>lseek\<close>, \<open>xf\<close> that of
  \<^verbatim>\<open>readv\<close>/\<^verbatim>\<open>writev\<close>; the count passed to them is \<^verbatim>\<open>sd->queued\<close> as an \<^verbatim>\<open>int\<close>.
\<close>

definition queued_iovecs :: "syncio_data \<Rightarrow> iovec list" where
  "queued_iovecs d = map (\<lambda>i. iovecs d (int i)) [0 ..< nat (sint (queued d))]"

definition fio_vsyncio_commit :: "state \<Rightarrow> u64 sysret \<Rightarrow> u64 sysret \<Rightarrow> u32 \<times> state" where
  "fio_vsyncio_commit s ls xf =
     (if queued (sd s) = 0 then (0, s)
      else
        (let f = last_file (sd s);
             s1 = s\<lparr>syscalls := syscalls s @
                       [Lseek (fds s f) (offset (mem s (io_us (sd s) 0)))],
                    errno := snd ls\<rparr>
         in if fst ls = - 1 then (- errno s1, td_verror s1 (errno s1) ''lseek'')
            else
              fio_vsyncio_end
                (s1\<lparr>syscalls := syscalls s1 @
                       [(if last_ddir (sd s) = DDIR_READ then Readv else Writev)
                          (fds s f) (queued_iovecs (sd s))],
                     errno := snd xf\<rparr>)
                (fst xf)))"

text \<open>
  \<^verbatim>\<open>fio_vsyncio_init(td)\<close>: \<^verbatim>\<open>memset\<close> clears the structure (\<^verbatim>\<open>NULL\<close>, \<^verbatim>\<open>DDIR_READ\<close>),
  \<^verbatim>\<open>last_offset\<close> becomes \<^verbatim>\<open>-1ULL\<close>; \<open>iov0\<close> and \<open>ius0\<close> are whatever the freshly allocated
  arrays hold.
\<close>

definition fio_vsyncio_init :: "state \<Rightarrow> (int \<Rightarrow> iovec) \<Rightarrow> (int \<Rightarrow> addr) \<Rightarrow> u32 \<times> state" where
  "fio_vsyncio_init s iov0 ius0 =
     (0, s\<lparr>sd := \<lparr>iovecs = iov0, io_us = ius0, queued = 0, queued_bytes = 0,
                  last_offset = - 1, last_file = 0, last_ddir = DDIR_READ\<rparr>\<rparr>)"

subsection \<open>The batch\<close>

text \<open>
  The fields of a request that the caller sets and the engine only reads.
\<close>

definition request_of :: "io_u \<Rightarrow> fio_ddir \<times> addr \<times> u64 \<times> addr \<times> u64" where
  "request_of io = (ddir io, file io, offset io, xfer_buf io, xfer_buflen io)"

text \<open>
  The batch is \<^verbatim>\<open>sd->io_us[0 .. sd->queued - 1]\<close>: the pointers in queue order, the
  request behind the \<open>i\<close>-th pointer, and the lengths of the queued requests.
\<close>

definition queued_reqs :: "state \<Rightarrow> addr list" where
  "queued_reqs s = map (\<lambda>i. io_us (sd s) (int i)) [0 ..< unat (queued (sd s))]"

definition queued_io_u :: "state \<Rightarrow> nat \<Rightarrow> io_u" where
  "queued_io_u s i = mem s (io_us (sd s) (int i))"

definition queued_lens :: "state \<Rightarrow> nat list" where
  "queued_lens s = map (\<lambda>p. unat (xfer_buflen (mem s p))) (queued_reqs s)"

text \<open>
  The loop of \<^verbatim>\<open>fio_vsyncio_end\<close> read as a traversal of the list of queued pointers
  (lemma \<open>end_loop_end_list\<close> below shows it is the same computation).
\<close>

fun end_list :: "u32 \<Rightarrow> u64 \<Rightarrow> addr list \<Rightarrow> (addr \<Rightarrow> io_u) \<Rightarrow> u64 \<times> (addr \<Rightarrow> io_u)" where
  "end_list err bytes [] m = (bytes, m)"
| "end_list err bytes (p # ps) m =
     end_list err (end_bytes bytes (m p)) ps (m(p := end_io_u err bytes (m p)))"

text \<open>
  A request that occurs twice in a list of pointers has length zero: what the engine's
  contiguity test leaves possible when the caller submits a request again.
\<close>

fun twice_empty :: "(addr \<Rightarrow> io_u) \<Rightarrow> addr list \<Rightarrow> bool" where
  "twice_empty m [] = True"
| "twice_empty m (p # ps) = ((p \<in> set ps \<longrightarrow> xfer_buflen (m p) = 0) \<and> twice_empty m ps)"

text \<open>
  The spec's rule for a short transfer, on natural numbers: walking the requests in order,
  each receives up to its own length from the remaining pool, and its residual is its
  length minus what it received.
\<close>

fun spec_received :: "nat \<Rightarrow> nat list \<Rightarrow> nat list" where
  "spec_received pool [] = []"
| "spec_received pool (l # ls) = min pool l # spec_received (pool - min pool l) ls"

fun spec_residuals :: "nat \<Rightarrow> nat list \<Rightarrow> nat list" where
  "spec_residuals pool [] = []"
| "spec_residuals pool (l # ls) = (l - min pool l) # spec_residuals (pool - min pool l) ls"

subsection \<open>Reachable states\<close>

text \<open>
  The states the engine can be in: after \<^verbatim>\<open>init\<close> with a depth that is a positive
  \<^verbatim>\<open>int\<close>, any sequence of \<^verbatim>\<open>queue\<close>, \<^verbatim>\<open>commit\<close> and \<^verbatim>\<open>getevents\<close> calls, with
  any outcomes of the system calls. Between calls the caller may rewrite any request
  that is not in the batch.
\<close>

inductive reachable :: "state \<Rightarrow> bool" where
  init: "0 < sint (iodepth s) \<Longrightarrow> reachable (snd (fio_vsyncio_init s iov0 ius0))"
| queue: "reachable s \<Longrightarrow> reachable (snd (fio_vsyncio_queue s p fs))"
| commit: "reachable s \<Longrightarrow> reachable (snd (fio_vsyncio_commit s ls xf))"
| getevents: "reachable s \<Longrightarrow> reachable (snd (fio_vsyncio_getevents s min_ev max_ev))"
| caller: "reachable s \<Longrightarrow> p \<notin> set (queued_reqs s) \<Longrightarrow>
           reachable (s\<lparr>mem := (mem s)(p := io)\<rparr>)"

text \<open>
  The invariant of the batch: the count is within the depth, each queued request
  continues the one before it on the same file in the same direction, and the last
  fields describe the last queued request. Sums are those of the code, modulo \<open>2 ^ 64\<close>.
\<close>

definition batch_inv :: "state \<Rightarrow> bool" where
  "batch_inv s \<longleftrightarrow>
     0 < sint (iodepth s) \<and> unat (queued (sd s)) \<le> unat (iodepth s)
     \<and> (\<forall>i. Suc i < unat (queued (sd s)) \<longrightarrow>
            offset (queued_io_u s (Suc i)) =
              offset (queued_io_u s i) + xfer_buflen (queued_io_u s i)
          \<and> file (queued_io_u s (Suc i)) = file (queued_io_u s i)
          \<and> ddir (queued_io_u s (Suc i)) = ddir (queued_io_u s i))
     \<and> (\<forall>n. unat (queued (sd s)) = Suc n \<longrightarrow>
            last_offset (sd s) = offset (queued_io_u s n) + xfer_buflen (queued_io_u s n)
          \<and> last_file (sd s) = file (queued_io_u s n)
          \<and> last_ddir (sd s) = ddir (queued_io_u s n))"

text \<open>
  The descriptors handed to \<^verbatim>\<open>readv\<close> and \<^verbatim>\<open>writev\<close>: slot \<open>i\<close> of \<^verbatim>\<open>sd->iovecs\<close> holds the
  buffer and the length of the \<open>i\<close>-th queued request.
\<close>

definition iov_inv :: "state \<Rightarrow> bool" where
  "iov_inv s \<longleftrightarrow>
     (\<forall>i<unat (queued (sd s)).
        iovecs (sd s) (int i) =
          \<lparr>iov_base = xfer_buf (queued_io_u s i), iov_len = xfer_buflen (queued_io_u s i)\<rparr>)"

subsection \<open>Example states\<close>

text \<open>
  Concrete requests and states for evaluating the operations, all on file 7. Requests 1,
  2 and 3 read 100, 200 and 50 bytes at offsets 0, 100 and 300; request 5 is a sync;
  requests 8 and 9 write 3 GiB each at offsets 0 and 3 GiB; request 6 writes
  \<open>2 ^ 64 - 1\<close> bytes and request 10 writes \<open>2 ^ 32 + 100\<close> bytes at offset 0; request 11
  reads 25 bytes at offset 350; request 12 writes 32 bytes at offset \<open>2 ^ 64 - 16\<close> and
  request 13 writes 8 bytes at offset 16; any other request reads 10 bytes at offset 1000.
\<close>

definition ex_req :: "fio_ddir \<Rightarrow> u64 \<Rightarrow> u64 \<Rightarrow> io_u" where
  "ex_req d off len =
     \<lparr>ddir = d, file = 7, offset = off, xfer_buf = 4096, xfer_buflen = len,
      resid = 0, error = 0\<rparr>"

definition ex_mem :: "addr \<Rightarrow> io_u" where
  "ex_mem p =
     (if p = 1 then ex_req DDIR_READ 0 100
      else if p = 2 then ex_req DDIR_READ 100 200
      else if p = 3 then ex_req DDIR_READ 300 50
      else if p = 5 then ex_req DDIR_SYNC 0 0
      else if p = 6 then ex_req DDIR_WRITE 0 (- 1)
      else if p = 8 then ex_req DDIR_WRITE 0 3221225472
      else if p = 9 then ex_req DDIR_WRITE 3221225472 3221225472
      else if p = 10 then ex_req DDIR_WRITE 0 4294967396
      else if p = 11 then ex_req DDIR_READ 350 25
      else if p = 12 then ex_req DDIR_WRITE (- 16) 32
      else if p = 13 then ex_req DDIR_WRITE 16 8
      else ex_req DDIR_READ 1000 10)"

definition ex_boot :: state where
  "ex_boot =
     \<lparr>iodepth = 3,
      sd = \<lparr>iovecs = (\<lambda>i. \<lparr>iov_base = 0, iov_len = 0\<rparr>), io_us = (\<lambda>i. 0), queued = 9,
            queued_bytes = 9, last_offset = 9, last_file = 9, last_ddir = DDIR_WRITE\<rparr>,
      mem = ex_mem, fds = (\<lambda>f. 3), errno = 0, verrors = [], syscalls = []\<rparr>"

definition ex_init :: state where
  "ex_init = snd (fio_vsyncio_init ex_boot (\<lambda>i. \<lparr>iov_base = 0, iov_len = 0\<rparr>) (\<lambda>i. 0))"

text \<open>Batches of one, two and three contiguous reads.\<close>

definition ex_batch1 :: state where
  "ex_batch1 = snd (fio_vsyncio_queue ex_init 1 (0, 0))"

definition ex_batch2 :: state where
  "ex_batch2 = snd (fio_vsyncio_queue ex_batch1 2 (0, 0))"

definition ex_batch3 :: state where
  "ex_batch3 = snd (fio_vsyncio_queue ex_batch2 3 (0, 0))"

text \<open>
  The first batch committed with a full transfer, then drained by a poll, then continued
  by request 2.
\<close>

definition ex_committed :: state where
  "ex_committed = snd (fio_vsyncio_commit ex_batch1 (0, 0) (100, 0))"

definition ex_drained :: state where
  "ex_drained = snd (fio_vsyncio_getevents ex_committed 1 1)"

definition ex_stale :: state where
  "ex_stale = snd (fio_vsyncio_queue ex_drained 2 (0, 0))"

text \<open>Batches of the large writes.\<close>

definition ex_big :: state where
  "ex_big = snd (fio_vsyncio_queue (snd (fio_vsyncio_queue ex_init 8 (0, 0))) 9 (0, 0))"

definition ex_huge :: state where
  "ex_huge = snd (fio_vsyncio_queue ex_init 6 (0, 0))"

definition ex_wide :: state where
  "ex_wide = snd (fio_vsyncio_queue ex_init 10 (0, 0))"

text \<open>A batch whose first request ends past \<open>2 ^ 64\<close>.\<close>

definition ex_wrap :: state where
  "ex_wrap = snd (fio_vsyncio_queue (snd (fio_vsyncio_queue ex_init 12 (0, 0))) 13 (0, 0))"

section \<open>Properties\<close>

declare fio_vsyncio_end_loop.simps [simp del]

lemmas ex_defs = ex_req_def ex_mem_def ex_boot_def ex_init_def ex_batch1_def ex_batch2_def
  ex_batch3_def fio_vsyncio_init_def fio_vsyncio_queue_def fio_vsyncio_append_def
  fio_vsyncio_set_iov_def

subsection \<open>Integer conversions\<close>

text \<open>An error code is a positive \<^verbatim>\<open>int\<close>; its negation is negative.\<close>

lemma sint_neg_pos:
  assumes "0 < sint (e :: u32)"
  shows "sint (- e) < 0"
proof -
  have b: "sint e < 2 ^ 31"
    using sint_lt [of e] by simp
  have "sint (- e) = signed_take_bit 31 (- sint e)"
    by (simp add: sint_word_ariths)
  also have "\<dots> = - sint e"
    using assms b by (intro signed_take_bit_int_eq_self) auto
  finally show ?thesis
    using assms by simp
qed

lemma sint_u32:
  "sint (d :: u32) = (if uint d < 2 ^ 31 then uint d else uint d - 2 ^ 32)"
proof -
  have lo: "0 \<le> uint d" and hi: "uint d < 2 ^ 32"
    using uint_lt2p [of d] by simp_all
  have s: "sint d = (uint d + 2 ^ 31) mod 2 ^ 32 - 2 ^ 31"
    by (simp add: sint_uint signed_take_bit_eq_take_bit_shift take_bit_eq_mod)
  show ?thesis
  proof (cases "uint d < 2 ^ 31")
    case True
    then have "(uint d + 2 ^ 31) mod 2 ^ 32 = uint d + 2 ^ 31"
      using lo by (intro mod_pos_pos_trivial) simp_all
    then show ?thesis using True s by simp
  next
    case False
    have "uint d + 2 ^ 31 = (uint d - 2 ^ 31) + 2 ^ 32"
      by simp
    then have "(uint d + 2 ^ 31) mod 2 ^ 32 = ((uint d - 2 ^ 31) + 2 ^ 32) mod 2 ^ 32"
      by (rule arg_cong)
    also have "\<dots> = (uint d - 2 ^ 31) mod 2 ^ 32"
      by (rule mod_add_self2)
    also have "\<dots> = uint d - 2 ^ 31"
      using False hi by (intro mod_pos_pos_trivial) simp_all
    finally show ?thesis using False s by simp
  qed
qed

lemma pos_small:
  assumes "0 < sint (d :: u32)" 
  shows "unat d < 2 ^ 31"
proof -
  have "uint d < 2 ^ 32"
    using uint_lt2p [of d] by simp
  then have "uint d < 2 ^ 31"
    using assms unfolding sint_u32 by (cases "uint d < 2 ^ 31") simp_all
  then have "int (unat d) < 2 ^ 31"
    by (simp only: uint_nat)
  then show ?thesis
    by (simp only: of_nat_less_numeral_power_cancel_iff)
qed

lemma small_sint_eq:
  assumes "unat (q :: u32) < 2 ^ 31"
  shows "sint q = int (unat q)"
proof -
  have "int (unat q) < 2 ^ 31"
    using assms by (simp only: of_nat_less_numeral_power_cancel_iff)
  then have "uint q < 2 ^ 31"
    by (simp only: uint_nat)
  then show ?thesis
    unfolding sint_u32 by (simp only: if_True uint_nat)
qed

lemma unat_succ:
  assumes "unat (q :: u32) \<le> unat d" "q \<noteq> d"
  shows "unat (q + 1) = Suc (unat q)"
proof -
  have "unat q < unat d"
    using assms by (simp add: word_unat_eq_iff)
  moreover have "unat d < 2 ^ LENGTH(32)"
    by (rule unsigned_less)
  ultimately have "unat q + unat (1 :: u32) < 2 ^ LENGTH(32)"
    by (simp only: unat_1)
  then have "unat (q + 1) = unat q + unat (1 :: u32)"
    by (rule unat_add_lem [THEN iffD1])
  then show ?thesis
    by simp
qed

text \<open>
  One step of the completion loop on numbers: with a byte count and a length below
  \<open>2 ^ 32\<close> no conversion loses bits.
\<close>

lemma unat_ucast_u32:
  "unat (w :: u64) < 2 ^ 32 \<Longrightarrow> unat (ucast w :: u32) = unat w"
  by (simp add: unsigned_ucast_eq take_bit_nat_eq_self)

lemma unat_ucast_u64: "unat (ucast (w :: u32) :: u64) = unat w"
  using unsigned_less [of w, where ?'a = nat]
  by (simp add: unsigned_ucast_eq take_bit_nat_eq_self)

lemma small_not_minus_one:
  "unat (w :: u64) < 2 ^ 32 \<Longrightarrow> w \<noteq> - 1"
  by (auto simp add: unsigned_minus_1_eq_mask mask_eq_exp_minus_1)

lemma this_io_unat:
  assumes "unat bytes < 2 ^ 32" "unat (xfer_buflen io) < 2 ^ 32"
  shows "unat (ucast (this_io bytes io) :: u64) = min (unat bytes) (unat (xfer_buflen io))"
  using assms by (auto simp add: this_io_def unat_ucast_u64 unat_ucast_u32 word_less_nat_alt)

lemma this_io_le:
  assumes "unat bytes < 2 ^ 32" "unat (xfer_buflen io) < 2 ^ 32"
  shows "ucast (this_io bytes io) \<le> bytes" "ucast (this_io bytes io) \<le> xfer_buflen io"
  using this_io_unat [OF assms] by (simp_all add: word_le_nat_alt)

lemma end_bytes_unat:
  assumes "unat bytes < 2 ^ 32" "unat (xfer_buflen io) < 2 ^ 32"
  shows "unat (end_bytes bytes io) = unat bytes - min (unat bytes) (unat (xfer_buflen io))"
  using this_io_le [OF assms] this_io_unat [OF assms] small_not_minus_one [OF assms(1)]
  by (simp add: end_bytes_def unat_sub)

lemma end_io_u_resid:
  assumes "unat bytes < 2 ^ 32" "unat (xfer_buflen io) < 2 ^ 32"
  shows "unat (resid (end_io_u err bytes io)) =
           unat (xfer_buflen io) - min (unat bytes) (unat (xfer_buflen io))"
proof -
  have "unat (xfer_buflen io - ucast (this_io bytes io)) =
          unat (xfer_buflen io) - min (unat bytes) (unat (xfer_buflen io))"
    using this_io_le [OF assms] this_io_unat [OF assms] by (simp add: unat_sub)
  then show ?thesis
    using small_not_minus_one [OF assms(1)] assms(2)
    by (simp add: end_io_u_def unat_ucast_u32)
qed

lemma end_io_u_error:
  "bytes \<noteq> - 1 \<Longrightarrow> error (end_io_u err bytes io) = 0"
  by (simp add: end_io_u_def)

subsection \<open>The completion loop\<close>

lemma end_loop_end_list:
  "fio_vsyncio_end_loop d err i bytes m =
     end_list err bytes (map (\<lambda>k. io_us d (int k)) [i ..< unat (queued d)]) m"
proof (induction d err i bytes m rule: fio_vsyncio_end_loop.induct)
  case (1 d err i bytes m)
  show ?case
  proof (cases "i < unat (queued d)")
    case True
    then show ?thesis
      using "1.IH" [OF True]
      by (subst fio_vsyncio_end_loop.simps) (simp add: upt_conv_Cons fun_upd_def)
  next
    case False
    then show ?thesis
      by (subst fio_vsyncio_end_loop.simps) simp
  qed
qed

lemma queued_reqs_loop:
  "fio_vsyncio_end_loop (sd s) err 0 bytes (mem s) = end_list err bytes (queued_reqs s) (mem s)"
  by (simp add: end_loop_end_list queued_reqs_def)

lemma end_list_other:
  "q \<notin> set ps \<Longrightarrow> snd (end_list err bytes ps m) q = m q"
  by (induction ps arbitrary: bytes m) auto

lemma end_list_failed:
  "end_list err (- 1) ps m = (- 1, \<lambda>q. if q \<in> set ps then (m q)\<lparr>error := err\<rparr> else m q)"
proof (induction ps arbitrary: m)
  case Nil
  then show ?case by simp
next
  case (Cons p ps)
  show ?case
    by (auto simp add: Cons.IH end_bytes_def end_io_u_def fun_eq_iff)
qed

lemma spec_residuals_received:
  "spec_residuals pool ls = map2 (-) ls (spec_received pool ls)"
  by (induction ls arbitrary: pool) auto

lemma spec_residuals_exhausted:
  "i < length ls \<Longrightarrow> pool \<le> sum_list (take i ls) \<Longrightarrow> spec_residuals pool ls ! i = ls ! i"
proof (induction ls arbitrary: pool i)
  case Nil
  then show ?case by simp
next
  case (Cons l ls)
  show ?case
  proof (cases i)
    case 0
    then show ?thesis using Cons.prems by simp
  next
    case (Suc j)
    then show ?thesis using Cons.prems Cons.IH [of j "pool - min pool l"] by auto
  qed
qed

lemma sum_list_spec_residuals:
  "sum_list (spec_residuals pool ls) = sum_list ls - pool"
  by (induction ls arbitrary: pool) auto

lemma xfer_buflen_end_io_u [simp]: "xfer_buflen (end_io_u err bytes io) = xfer_buflen io"
  by (simp add: end_io_u_def)

lemma twice_empty_cong:
  "(\<And>q. q \<in> set ps \<Longrightarrow> xfer_buflen (m' q) = xfer_buflen (m q)) \<Longrightarrow>
   twice_empty m' ps = twice_empty m ps"
  by (induction ps) auto

lemma spec_residuals_le:
  "j < length ls \<Longrightarrow> spec_residuals pool ls ! j \<le> ls ! j"
proof (induction ls arbitrary: pool j)
  case Nil
  then show ?case by simp
next
  case (Cons l ls)
  then show ?case by (cases j) simp_all
qed

lemma length_spec_residuals [simp]: "length (spec_residuals pool ls) = length ls"
  by (induction ls arbitrary: pool) simp_all

lemma end_list_short:
  assumes "twice_empty m ps" "\<forall>p\<in>set ps. unat (xfer_buflen (m p)) < 2 ^ 32" "unat bytes < 2 ^ 32"
  shows "map (\<lambda>p. unat (resid (snd (end_list err bytes ps m) p))) ps =
           spec_residuals (unat bytes) (map (\<lambda>p. unat (xfer_buflen (m p))) ps)
       \<and> (\<forall>p\<in>set ps. error (snd (end_list err bytes ps m) p) = 0)
       \<and> unat (fst (end_list err bytes ps m)) < 2 ^ 32"
  using assms
proof (induction ps arbitrary: bytes m)
  case Nil
  then show ?case by simp
next
  case (Cons p ps)
  let ?m1 = "m(p := end_io_u err bytes (m p))"
  let ?b1 = "end_bytes bytes (m p)"
  let ?m' = "snd (end_list err ?b1 ps ?m1)"
  let ?lens = "map (\<lambda>q. unat (xfer_buflen (m q))) ps"
  have len: "unat (xfer_buflen (m p)) < 2 ^ 32"
    using Cons.prems(2) by simp
  have b1: "unat ?b1 = unat bytes - min (unat bytes) (unat (xfer_buflen (m p)))"
    by (rule end_bytes_unat [OF Cons.prems(3) len])
  then have b1_small: "unat ?b1 < 2 ^ 32"
    using Cons.prems(3) by simp
  have same: "xfer_buflen (?m1 q) = xfer_buflen (m q)" for q
    by simp
  have lens: "\<forall>q\<in>set ps. unat (xfer_buflen (?m1 q)) < 2 ^ 32"
    using Cons.prems(2) by (simp only: same) simp
  have tw: "twice_empty ?m1 ps"
    using Cons.prems(1) twice_empty_cong [of ps ?m1 m] by (simp only: same) simp
  note ih = Cons.IH [OF tw lens b1_small]
  have map_eq: "map (\<lambda>q. unat (xfer_buflen (?m1 q))) ps = ?lens"
    by (simp only: same)
  have tail: "map (\<lambda>q. unat (resid (?m' q))) ps = spec_residuals (unat ?b1) ?lens"
    and errs: "\<forall>q\<in>set ps. error (?m' q) = 0"
    and left: "unat (fst (end_list err ?b1 ps ?m1)) < 2 ^ 32"
    using ih unfolding map_eq by blast+
  have r_head: "unat (resid (end_io_u err bytes (m p))) =
                  unat (xfer_buflen (m p)) - min (unat bytes) (unat (xfer_buflen (m p)))"
    by (rule end_io_u_resid [OF Cons.prems(3) len])
  have e_head: "error (end_io_u err bytes (m p)) = 0"
    by (rule end_io_u_error [OF small_not_minus_one [OF Cons.prems(3)]])
  have head: "unat (resid (?m' p)) =
                unat (xfer_buflen (m p)) - min (unat bytes) (unat (xfer_buflen (m p)))
            \<and> error (?m' p) = 0"
  proof (cases "p \<in> set ps")
    case False
    then have "?m' p = end_io_u err bytes (m p)"
      by (simp add: end_list_other)
    then show ?thesis
      using r_head e_head by simp
  next
    case True
    then have zero: "unat (xfer_buflen (m p)) = 0"
      using Cons.prems(1) by simp
    obtain j where j: "j < length ps" "ps ! j = p"
      using True by (auto simp add: in_set_conv_nth)
    have "map (\<lambda>q. unat (resid (?m' q))) ps ! j = spec_residuals (unat ?b1) ?lens ! j"
      by (simp only: tail)
    then have "unat (resid (?m' p)) = spec_residuals (unat ?b1) ?lens ! j"
      using j by simp
    moreover have "spec_residuals (unat ?b1) ?lens ! j \<le> ?lens ! j"
      using j(1) by (intro spec_residuals_le) simp
    moreover have "?lens ! j = 0"
      using j zero by simp
    ultimately have "unat (resid (?m' p)) = 0"
      by simp
    then show ?thesis
      using zero errs True by simp
  qed
  have unfold: "end_list err bytes (p # ps) m = end_list err ?b1 ps ?m1"
    by simp
  show ?case
    unfolding unfold
    using tail errs left head b1 by simp
qed

lemma fio_vsyncio_end_short:
  assumes "twice_empty (mem s) (queued_reqs s)"
    and "\<forall>p\<in>set (queued_reqs s). unat (xfer_buflen (mem s p)) < 2 ^ 32"
    and "unat bytes < 2 ^ 32"
    and "bytes \<noteq> queued_bytes (sd s)"
  shows "fst (fio_vsyncio_end s bytes) = 0"
    and "map (\<lambda>p. unat (resid (mem (snd (fio_vsyncio_end s bytes)) p))) (queued_reqs s) =
           spec_residuals (unat bytes) (queued_lens s)"
    and "\<forall>p\<in>set (queued_reqs s). error (mem (snd (fio_vsyncio_end s bytes)) p) = 0"
proof -
  let ?r = "end_list (errno s) bytes (queued_reqs s) (mem s)"
  note short = end_list_short [OF assms(1-3), of "errno s"]
  have left: "fst ?r \<noteq> - 1"
    using short small_not_minus_one by blast
  have run: "fio_vsyncio_end s bytes = (0, s\<lparr>mem := snd ?r\<rparr>)"
    using assms(4) left by (simp add: fio_vsyncio_end_def Let_def queued_reqs_loop)
  show "fst (fio_vsyncio_end s bytes) = 0"
    by (simp add: run)
  show "map (\<lambda>p. unat (resid (mem (snd (fio_vsyncio_end s bytes)) p))) (queued_reqs s) =
           spec_residuals (unat bytes) (queued_lens s)"
    using short by (simp add: run queued_lens_def)
  show "\<forall>p\<in>set (queued_reqs s). error (mem (snd (fio_vsyncio_end s bytes)) p) = 0"
    using short by (simp add: run)
qed

lemma fio_vsyncio_end_failed:
  assumes "queued_bytes (sd s) \<noteq> - 1"
  shows "fio_vsyncio_end s (- 1) =
           (- errno s,
            td_verror
              (s\<lparr>mem := (\<lambda>q. if q \<in> set (queued_reqs s) then (mem s q)\<lparr>error := errno s\<rparr>
                               else mem s q)\<rparr>)
              (errno s) ''xfer vsync'')"
  using assms
  by (simp add: fio_vsyncio_end_def Let_def queued_reqs_loop end_list_failed)

subsection \<open>What the completion functions leave alone\<close>

lemma request_of_end_io_u [simp]: "request_of (end_io_u err bytes io) = request_of io"
  by (simp add: end_io_u_def request_of_def)

lemma request_of_end_loop:
  "request_of (snd (fio_vsyncio_end_loop d err i bytes m) p) = request_of (m p)"
proof (induction d err i bytes m rule: fio_vsyncio_end_loop.induct)
  case (1 d err i bytes m)
  show ?case
  proof (cases "i < unat (queued d)")
    case True
    then show ?thesis
      using "1.IH" [OF True] by (subst fio_vsyncio_end_loop.simps) (simp add: fun_upd_def)
  next
    case False
    then show ?thesis
      by (subst fio_vsyncio_end_loop.simps) simp
  qed
qed

lemma sd_fio_vsyncio_end [simp]: "sd (snd (fio_vsyncio_end s bytes)) = sd s"
  by (simp add: fio_vsyncio_end_def Let_def td_verror_def)

lemma request_of_fio_vsyncio_end [simp]:
  "request_of (mem (snd (fio_vsyncio_end s bytes)) p) = request_of (mem s p)"
  by (simp add: fio_vsyncio_end_def Let_def td_verror_def request_of_end_loop)

lemma sd_fio_vsyncio_commit [simp]: "sd (snd (fio_vsyncio_commit s ls xf)) = sd s"
  by (simp add: fio_vsyncio_commit_def Let_def td_verror_def)

lemma iodepth_fio_vsyncio_commit [simp]: "iodepth (snd (fio_vsyncio_commit s ls xf)) = iodepth s"
  by (simp add: fio_vsyncio_commit_def fio_vsyncio_end_def Let_def td_verror_def)

lemma request_of_fio_vsyncio_commit [simp]:
  "request_of (mem (snd (fio_vsyncio_commit s ls xf)) p) = request_of (mem s p)"
  by (simp add: fio_vsyncio_commit_def Let_def td_verror_def)

lemma append_request_of:
  "sd s' = sd s \<Longrightarrow> request_of (mem s' p) = request_of (mem s p) \<Longrightarrow>
   fio_vsyncio_append s' p = fio_vsyncio_append s p"
  by (simp add: fio_vsyncio_append_def request_of_def Let_def)

lemma sd_fio_io_end [simp]: "sd (snd (fio_io_end s p ret)) = sd s"
  by (simp add: fio_io_end_def Let_def td_verror_def)

lemma iodepth_fio_io_end [simp]: "iodepth (snd (fio_io_end s p ret)) = iodepth s"
  by (simp add: fio_io_end_def Let_def td_verror_def)

subsection \<open>The invariant holds in every reachable state\<close>

lemma batch_inv_empty:
  "queued (sd s) = 0 \<Longrightarrow> batch_inv s \<longleftrightarrow> 0 < sint (iodepth s)"
  by (simp add: batch_inv_def)

lemma batch_inv_init:
  "0 < sint (iodepth s) \<Longrightarrow> batch_inv (snd (fio_vsyncio_init s iov0 ius0))"
  by (simp add: batch_inv_empty fio_vsyncio_init_def)

lemma batch_inv_getevents:
  "batch_inv s \<Longrightarrow> batch_inv (snd (fio_vsyncio_getevents s min_ev max_ev))"
  by (cases "min_ev = 0") (simp_all add: fio_vsyncio_getevents_def batch_inv_empty, simp add: batch_inv_def)

lemma batch_inv_cong:
  assumes "batch_inv s" "sd s' = sd s" "iodepth s' = iodepth s"
    and "\<And>i. i < unat (queued (sd s)) \<Longrightarrow>
            request_of (queued_io_u s' i) = request_of (queued_io_u s i)"
  shows "batch_inv s'"
proof -
  have eq: "offset (queued_io_u s' i) = offset (queued_io_u s i)"
      "xfer_buflen (queued_io_u s' i) = xfer_buflen (queued_io_u s i)"
      "file (queued_io_u s' i) = file (queued_io_u s i)"
      "ddir (queued_io_u s' i) = ddir (queued_io_u s i)"
    if "i < unat (queued (sd s))" for i
    using assms(4) [OF that] by (simp_all add: request_of_def)
  show ?thesis
    using assms(1) unfolding batch_inv_def assms(2,3)
    by (auto simp add: eq)
qed

lemma batch_inv_commit:
  assumes "batch_inv s"
  shows "batch_inv (snd (fio_vsyncio_commit s ls xf))"
  using assms by (rule batch_inv_cong) (simp_all add: queued_io_u_def)

lemma queued_reqs_mem:
  "i < unat (queued (sd s)) \<Longrightarrow> io_us (sd s) (int i) \<in> set (queued_reqs s)"
  by (simp add: queued_reqs_def)

lemma batch_inv_caller:
  assumes "batch_inv s" "p \<notin> set (queued_reqs s)"
  shows "batch_inv (s\<lparr>mem := (mem s)(p := io)\<rparr>)"
proof (rule batch_inv_cong [OF assms(1)])
  fix i assume "i < unat (queued (sd s))"
  then have "io_us (sd s) (int i) \<noteq> p"
    using queued_reqs_mem [of i s] assms(2) by auto
  then show "request_of (queued_io_u (s\<lparr>mem := (mem s)(p := io)\<rparr>) i) = request_of (queued_io_u s i)"
    by (simp add: queued_io_u_def)
qed simp_all

lemma batch_inv_fresh:
  assumes "0 < sint (iodepth s)"
  shows "batch_inv (s\<lparr>sd := fio_vsyncio_set_iov ((sd s)\<lparr>queued := 0, queued_bytes := 0\<rparr>) p (mem s p) 0\<rparr>)"
proof -
  have "iodepth s \<noteq> 0"
    using assms by auto
  then have "unat (iodepth s) \<noteq> 0"
    by (simp add: unat_eq_zero)
  then show ?thesis
    using assms by (simp add: batch_inv_def fio_vsyncio_set_iov_def queued_io_u_def)
qed

lemma batch_inv_append:
  assumes inv: "batch_inv s" and app: "fio_vsyncio_append s p"
    and room: "queued (sd s) \<noteq> iodepth s"
  shows "batch_inv (s\<lparr>sd := fio_vsyncio_set_iov (sd s) p (mem s p) (queued (sd s))\<rparr>)"
    (is "batch_inv ?s'")
proof -
  let ?n = "unat (queued (sd s))"
  have le: "?n \<le> unat (iodepth s)" and pos: "0 < sint (iodepth s)"
    using inv by (simp_all add: batch_inv_def)
  have n': "unat (queued (sd s) + 1) = Suc ?n"
    by (rule unat_succ [OF le room])
  have lt: "?n < unat (iodepth s)"
    using le room by (simp add: word_unat_eq_iff)
  have small: "?n < 2 ^ 31"
    using pos_small [OF pos] lt by simp
  have idx: "sint (queued (sd s)) = int ?n"
    by (rule small_sint_eq [OF small])
  have q: "queued_io_u ?s' i = (if i = ?n then mem s p else queued_io_u s i)" for i
    by (simp add: queued_io_u_def fio_vsyncio_set_iov_def idx del: of_nat_unat)
  have a: "offset (mem s p) = last_offset (sd s)" "file (mem s p) = last_file (sd s)"
    "ddir (mem s p) = last_ddir (sd s)"
    using app by (simp_all add: fio_vsyncio_append_def Let_def split: if_splits)
  have chain: "offset (queued_io_u s (Suc i)) = offset (queued_io_u s i) + xfer_buflen (queued_io_u s i)
      \<and> file (queued_io_u s (Suc i)) = file (queued_io_u s i)
      \<and> ddir (queued_io_u s (Suc i)) = ddir (queued_io_u s i)" if "Suc i < ?n" for i
    using inv that by (simp add: batch_inv_def)
  have last: "last_offset (sd s) = offset (queued_io_u s k) + xfer_buflen (queued_io_u s k)
      \<and> last_file (sd s) = file (queued_io_u s k)
      \<and> last_ddir (sd s) = ddir (queued_io_u s k)" if "?n = Suc k" for k
    using inv that by (simp add: batch_inv_def)
  have c1: "unat (queued (sd ?s')) = Suc ?n"
    using n' by (simp add: fio_vsyncio_set_iov_def)
  have c2: "iodepth ?s' = iodepth s"
    by simp
  have c3: "last_offset (sd ?s') = offset (mem s p) + xfer_buflen (mem s p)"
    "last_file (sd ?s') = file (mem s p)" "last_ddir (sd ?s') = ddir (mem s p)"
    by (simp_all add: fio_vsyncio_set_iov_def)
  show ?thesis
    unfolding batch_inv_def c1 c2 c3 q
    using pos lt chain last a by (auto simp add: less_Suc_eq)
qed

lemma batch_inv_queue:
  assumes "batch_inv s"
  shows "batch_inv (snd (fio_vsyncio_queue s p fs))"
proof -
  have pos: "0 < sint (iodepth s)"
    using assms by (simp add: batch_inv_def)
  show ?thesis
    using assms pos batch_inv_fresh [OF pos, of p] batch_inv_append [OF assms, of p]
    by (simp add: fio_vsyncio_queue_def batch_inv_empty)
qed

lemma reachable_batch_inv: "reachable s \<Longrightarrow> batch_inv s"
proof (induction rule: reachable.induct)
  case (init s iov0 ius0)
  then show ?case by (rule batch_inv_init)
next
  case (queue s p fs)
  then show ?case by (simp add: batch_inv_queue)
next
  case (commit s ls xf)
  then show ?case by (simp add: batch_inv_commit)
next
  case (getevents s min_ev max_ev)
  then show ?case by (simp add: batch_inv_getevents)
next
  case (caller s p io)
  then show ?case by (simp add: batch_inv_caller)
qed

lemma batch_inv_first:
  assumes "batch_inv s" and "i < unat (queued (sd s))"
  shows "file (queued_io_u s i) = file (queued_io_u s 0)
       \<and> ddir (queued_io_u s i) = ddir (queued_io_u s 0)
       \<and> offset (queued_io_u s i) =
           offset (queued_io_u s 0) + (\<Sum>j<i. xfer_buflen (queued_io_u s j))"
  using assms(2)
proof (induction i)
  case 0
  then show ?case by simp
next
  case (Suc i)
  then have "Suc i < unat (queued (sd s))" and "i < unat (queued (sd s))"
    by simp_all
  then show ?case
    using Suc.IH assms(1) by (simp add: batch_inv_def add.assoc)
qed

lemma batch_inv_last:
  assumes "batch_inv s" and "0 < unat (queued (sd s))"
  shows "last_offset (sd s) =
           offset (queued_io_u s 0) + (\<Sum>j<unat (queued (sd s)). xfer_buflen (queued_io_u s j))
       \<and> last_file (sd s) = file (queued_io_u s 0)
       \<and> last_ddir (sd s) = ddir (queued_io_u s 0)"
proof -
  obtain k where k: "unat (queued (sd s)) = Suc k"
    using assms(2) by (cases "unat (queued (sd s))") simp_all
  then have "k < unat (queued (sd s))"
    by simp
  note f = batch_inv_first [OF assms(1) this]
  have "last_offset (sd s) = offset (queued_io_u s k) + xfer_buflen (queued_io_u s k)
      \<and> last_file (sd s) = file (queued_io_u s k)
      \<and> last_ddir (sd s) = ddir (queued_io_u s k)"
    using assms(1) k by (simp add: batch_inv_def)
  then show ?thesis
    using f by (simp add: k add.assoc)
qed

text \<open>
  In a reachable state whose queued requests are shorter than \<open>2 ^ 32\<close> bytes, a request
  queued twice has length zero: its two slots start at the same offset, so the lengths
  between them sum to zero, and the sum of fewer than \<open>2 ^ 31\<close> such lengths does not wrap.
\<close>

lemma unat_sum_small:
  fixes f :: "nat \<Rightarrow> u64"
  assumes "finite A" "\<forall>j\<in>A. unat (f j) < 2 ^ 32" "card A < 2 ^ 31"
  shows "unat (sum f A) = (\<Sum>j\<in>A. unat (f j)) \<and> (\<Sum>j\<in>A. unat (f j)) \<le> card A * 2 ^ 32"
  using assms
proof (induction A rule: finite_induct)
  case empty
  then show ?case by simp
next
  case (insert x F)
  have cF: "card F < 2 ^ 31" and cF': "Suc (card F) < 2 ^ 31"
    using insert.prems(2) insert.hyps by simp_all
  have ih: "unat (sum f F) = (\<Sum>j\<in>F. unat (f j))" "(\<Sum>j\<in>F. unat (f j)) \<le> card F * 2 ^ 32"
    using insert.IH insert.prems(1) cF by simp_all
  have fx: "unat (f x) < 2 ^ 32"
    using insert.prems(1) by simp
  have "Suc (card F) * 2 ^ 32 \<le> (2 ^ 31 :: nat) * 2 ^ 32"
    using cF' by (intro mult_le_mono1) simp
  also have "\<dots> < (2 :: nat) ^ 64"
    by simp
  finally have bound: "Suc (card F) * 2 ^ 32 < (2 :: nat) ^ 64" .
  have step: "unat (f x) + (\<Sum>j\<in>F. unat (f j)) \<le> Suc (card F) * 2 ^ 32"
    using fx ih(2) by simp
  then have "unat (f x) + unat (sum f F) < 2 ^ LENGTH(64)"
    using bound ih(1) by simp
  then have "unat (f x + sum f F) = unat (f x) + unat (sum f F)"
    by (rule unat_add_lem [THEN iffD1])
  then show ?case
    using insert.hyps ih(1) step by simp
qed

lemma word_sum_zero:
  fixes f :: "nat \<Rightarrow> u64"
  assumes "finite A" "\<forall>j\<in>A. unat (f j) < 2 ^ 32" "card A < 2 ^ 31" "sum f A = 0" "k \<in> A"
  shows "f k = 0"
proof -
  have "(\<Sum>j\<in>A. unat (f j)) = 0"
    using unat_sum_small [OF assms(1-3)] assms(4) by simp
  then have "unat (f k) = 0"
    using assms(1,5) by simp
  then show ?thesis
    by (simp add: unat_eq_zero)
qed

lemma batch_inv_twice:
  assumes inv: "batch_inv s"
    and small: "\<forall>i<unat (queued (sd s)). unat (xfer_buflen (queued_io_u s i)) < 2 ^ 32"
    and kl: "k < l" "l < unat (queued (sd s))"
    and same: "io_us (sd s) (int k) = io_us (sd s) (int l)"
  shows "xfer_buflen (queued_io_u s k) = 0"
proof -
  let ?f = "\<lambda>j. xfer_buflen (queued_io_u s j)"
  let ?n = "unat (queued (sd s))"
  have k: "k < ?n"
    using kl by simp
  have eq: "queued_io_u s k = queued_io_u s l"
    using same by (simp add: queued_io_u_def)
  have "offset (queued_io_u s 0) + sum ?f {..<l} = offset (queued_io_u s 0) + sum ?f {..<k}"
    using batch_inv_first [OF inv kl(2)] batch_inv_first [OF inv k] eq by simp
  then have "sum ?f {..<l} = sum ?f {..<k}"
    by simp
  moreover have "{..<l} = {..<k} \<union> {k..<l}"
    using kl(1) by auto
  then have "sum ?f {..<l} = sum ?f {..<k} + sum ?f {k..<l}"
    by (simp add: sum.union_disjoint ivl_disj_int)
  ultimately have z: "sum ?f {k..<l} = 0"
    by simp
  have "?n \<le> unat (iodepth s)" and "0 < sint (iodepth s)"
    using inv by (simp_all add: batch_inv_def)
  then have "?n < 2 ^ 31"
    using pos_small [of "iodepth s"] by simp
  then have c: "card {k..<l} < 2 ^ 31"
    using kl(2) by simp
  have b: "\<forall>j\<in>{k..<l}. unat (?f j) < 2 ^ 32"
    using small kl(2) by simp
  show ?thesis
    using word_sum_zero [OF _ b c z, of k] kl(1) by simp
qed

lemma twice_empty_upt:
  assumes "\<And>k l. k < l \<Longrightarrow> l < n \<Longrightarrow> g k = g l \<Longrightarrow> xfer_buflen (m (g k)) = 0"
  shows "twice_empty m (map g [i ..< n])"
proof (induction "n - i" arbitrary: i)
  case 0
  then show ?case by simp
next
  case (Suc d)
  then have i: "i < n" and d: "d = n - Suc i"
    by simp_all
  have "xfer_buflen (m (g i)) = 0" if "g i \<in> set (map g [Suc i ..< n])"
  proof -
    have "g i \<in> g ` {Suc i ..< n}"
      using that by simp
    then obtain l where "Suc i \<le> l" "l < n" "g l = g i"
      by (auto simp add: image_iff)
    then show ?thesis
      using assms [of i l] by simp
  qed
  then show ?case
    using Suc.hyps(1) [OF d] i by (simp add: upt_conv_Cons)
qed

lemma batch_inv_twice_empty:
  assumes "batch_inv s"
    and "\<forall>p\<in>set (queued_reqs s). unat (xfer_buflen (mem s p)) < 2 ^ 32"
  shows "twice_empty (mem s) (queued_reqs s)"
proof -
  have small: "\<forall>i<unat (queued (sd s)). unat (xfer_buflen (queued_io_u s i)) < 2 ^ 32"
    using assms(2) queued_reqs_mem by (simp add: queued_io_u_def)
  show ?thesis
    unfolding queued_reqs_def
    using batch_inv_twice [OF assms(1) small]
    by (intro twice_empty_upt) (simp add: queued_io_u_def)
qed

subsection \<open>Offsets as numbers\<close>

text \<open>
  When the first offset plus the queued lengths stays below \<open>2 ^ 64\<close>, no addition of the
  invariant wraps, and the offsets are the numeric sums.
\<close>

lemma sum_prefix_le:
  fixes g :: "nat \<Rightarrow> nat"
  assumes "i \<le> n"
  shows "(\<Sum>j<i. g j) \<le> (\<Sum>j<n. g j)"
  using assms by (intro sum_mono2) auto

lemma batch_inv_numeric:
  assumes inv: "batch_inv s"
    and nowrap: "unat (offset (queued_io_u s 0))
        + (\<Sum>j<unat (queued (sd s)). unat (xfer_buflen (queued_io_u s j))) < 2 ^ 64"
    and i: "i < unat (queued (sd s))"
  shows "unat (offset (queued_io_u s i)) =
           unat (offset (queued_io_u s 0)) + (\<Sum>j<i. unat (xfer_buflen (queued_io_u s j)))"
  using i
proof (induction i)
  case 0
  then show ?case by simp
next
  case (Suc i)
  let ?g = "\<lambda>j. unat (xfer_buflen (queued_io_u s j))"
  have i: "i < unat (queued (sd s))"
    using Suc.prems by simp
  have ih: "unat (offset (queued_io_u s i)) = unat (offset (queued_io_u s 0)) + (\<Sum>j<i. ?g j)"
    using Suc.IH i by simp
  have step: "offset (queued_io_u s (Suc i)) =
      offset (queued_io_u s i) + xfer_buflen (queued_io_u s i)"
    using inv Suc.prems by (simp add: batch_inv_def)
  have "(\<Sum>j<Suc i. ?g j) \<le> (\<Sum>j<unat (queued (sd s)). ?g j)"
    using Suc.prems by (intro sum_prefix_le) simp
  then have "unat (offset (queued_io_u s i)) + ?g i < 2 ^ LENGTH(64)"
    using nowrap ih by simp
  then have "unat (offset (queued_io_u s i) + xfer_buflen (queued_io_u s i)) =
      unat (offset (queued_io_u s i)) + ?g i"
    by (rule unat_add_lem [THEN iffD1])
  then show ?case
    using step ih by simp
qed

lemma batch_inv_numeric_last:
  assumes inv: "batch_inv s"
    and nowrap: "unat (offset (queued_io_u s 0))
        + (\<Sum>j<unat (queued (sd s)). unat (xfer_buflen (queued_io_u s j))) < 2 ^ 64"
    and n: "0 < unat (queued (sd s))"
  shows "unat (last_offset (sd s)) =
           unat (offset (queued_io_u s 0))
             + (\<Sum>j<unat (queued (sd s)). unat (xfer_buflen (queued_io_u s j)))"
proof -
  let ?g = "\<lambda>j. unat (xfer_buflen (queued_io_u s j))"
  obtain k where k: "unat (queued (sd s)) = Suc k"
    using n by (cases "unat (queued (sd s))") simp_all
  then have kn: "k < unat (queued (sd s))"
    by simp
  have pre: "unat (offset (queued_io_u s k)) = unat (offset (queued_io_u s 0)) + (\<Sum>j<k. ?g j)"
    by (rule batch_inv_numeric [OF inv nowrap kn])
  have l: "last_offset (sd s) = offset (queued_io_u s k) + xfer_buflen (queued_io_u s k)"
    using inv k by (simp add: batch_inv_def)
  have "unat (offset (queued_io_u s k)) + ?g k < 2 ^ LENGTH(64)"
    using nowrap pre by (simp add: k)
  then have "unat (offset (queued_io_u s k) + xfer_buflen (queued_io_u s k)) =
      unat (offset (queued_io_u s k)) + ?g k"
    by (rule unat_add_lem [THEN iffD1])
  then show ?thesis
    using l pre by (simp add: k)
qed

subsection \<open>What commit hands to the transfer\<close>

text \<open>
  In every reachable state the descriptors are those of the queued requests, and the
  signed count is the number of queued requests. So a commit that gets past \<^verbatim>\<open>lseek\<close>
  makes one vectored transfer, of the buffers of exactly the queued requests, and then
  changes no request outside the batch.
\<close>

lemma iov_inv_empty: "queued (sd s) = 0 \<Longrightarrow> iov_inv s"
  by (simp add: iov_inv_def)

lemma iov_inv_cong:
  assumes "iov_inv s" "sd s' = sd s"
    and "\<And>i. i < unat (queued (sd s)) \<Longrightarrow>
            request_of (queued_io_u s' i) = request_of (queued_io_u s i)"
  shows "iov_inv s'"
proof -
  have "xfer_buf (queued_io_u s' i) = xfer_buf (queued_io_u s i)
      \<and> xfer_buflen (queued_io_u s' i) = xfer_buflen (queued_io_u s i)"
    if "i < unat (queued (sd s))" for i
    using assms(3) [OF that] by (simp add: request_of_def)
  then show ?thesis
    using assms(1) unfolding iov_inv_def assms(2) by simp
qed

lemma iov_inv_commit:
  assumes "iov_inv s"
  shows "iov_inv (snd (fio_vsyncio_commit s ls xf))"
  using assms by (rule iov_inv_cong) (simp_all add: queued_io_u_def)

lemma iov_inv_getevents:
  "iov_inv s \<Longrightarrow> iov_inv (snd (fio_vsyncio_getevents s min_ev max_ev))"
  by (cases "min_ev = 0") (simp_all add: fio_vsyncio_getevents_def iov_inv_empty)

lemma iov_inv_caller:
  assumes "iov_inv s" "p \<notin> set (queued_reqs s)"
  shows "iov_inv (s\<lparr>mem := (mem s)(p := io)\<rparr>)"
proof (rule iov_inv_cong [OF assms(1)])
  fix i assume "i < unat (queued (sd s))"
  then have "io_us (sd s) (int i) \<noteq> p"
    using queued_reqs_mem [of i s] assms(2) by auto
  then show "request_of (queued_io_u (s\<lparr>mem := (mem s)(p := io)\<rparr>) i) = request_of (queued_io_u s i)"
    by (simp add: queued_io_u_def)
qed simp

lemma iov_inv_fresh:
  "iov_inv (s\<lparr>sd := fio_vsyncio_set_iov ((sd s)\<lparr>queued := 0, queued_bytes := 0\<rparr>) p (mem s p) 0\<rparr>)"
  by (simp add: iov_inv_def fio_vsyncio_set_iov_def queued_io_u_def)

lemma iov_inv_append:
  assumes iov: "iov_inv s" and inv: "batch_inv s"
    and room: "queued (sd s) \<noteq> iodepth s"
  shows "iov_inv (s\<lparr>sd := fio_vsyncio_set_iov (sd s) p (mem s p) (queued (sd s))\<rparr>)"
    (is "iov_inv ?s'")
proof -
  let ?n = "unat (queued (sd s))"
  have le: "?n \<le> unat (iodepth s)" and pos: "0 < sint (iodepth s)"
    using inv by (simp_all add: batch_inv_def)
  have n': "unat (queued (sd s) + 1) = Suc ?n"
    by (rule unat_succ [OF le room])
  have lt: "?n < unat (iodepth s)"
    using le room by (simp add: word_unat_eq_iff)
  have small: "?n < 2 ^ 31"
    using pos_small [OF pos] lt by simp
  have idx: "sint (queued (sd s)) = int ?n"
    by (rule small_sint_eq [OF small])
  have q: "queued_io_u ?s' i = (if i = ?n then mem s p else queued_io_u s i)" for i
    by (simp add: queued_io_u_def fio_vsyncio_set_iov_def idx del: of_nat_unat)
  have v: "iovecs (sd ?s') (int i) =
      (if i = ?n then \<lparr>iov_base = xfer_buf (mem s p), iov_len = xfer_buflen (mem s p)\<rparr>
       else iovecs (sd s) (int i))" for i
    by (simp add: fio_vsyncio_set_iov_def idx del: of_nat_unat)
  have c1: "unat (queued (sd ?s')) = Suc ?n"
    using n' by (simp add: fio_vsyncio_set_iov_def)
  show ?thesis
    unfolding iov_inv_def c1 q v
    using iov by (auto simp add: iov_inv_def less_Suc_eq)
qed

lemma iov_inv_queue:
  assumes "iov_inv s" "batch_inv s"
  shows "iov_inv (snd (fio_vsyncio_queue s p fs))"
  using assms iov_inv_fresh [of s p] iov_inv_append [OF assms, of p]
  by (simp add: fio_vsyncio_queue_def iov_inv_empty)

lemma reachable_iov_inv: "reachable s \<Longrightarrow> iov_inv s"
proof (induction rule: reachable.induct)
  case (init s iov0 ius0)
  then show ?case by (simp add: iov_inv_empty fio_vsyncio_init_def)
next
  case (queue s p fs)
  then show ?case by (simp add: iov_inv_queue reachable_batch_inv)
next
  case (commit s ls xf)
  then show ?case by (simp add: iov_inv_commit)
next
  case (getevents s min_ev max_ev)
  then show ?case by (simp add: iov_inv_getevents)
next
  case (caller s p io)
  then show ?case by (simp add: iov_inv_caller)
qed

lemma reachable_count:
  assumes "reachable s"
  shows "sint (queued (sd s)) = int (unat (queued (sd s)))"
proof -
  have inv: "batch_inv s"
    using assms by (rule reachable_batch_inv)
  then have "unat (iodepth s) < 2 ^ 31"
    by (intro pos_small) (simp add: batch_inv_def)
  moreover have "unat (queued (sd s)) \<le> unat (iodepth s)"
    using inv by (simp add: batch_inv_def)
  ultimately have "unat (queued (sd s)) < 2 ^ 31"
    by simp
  then show ?thesis
    by (rule small_sint_eq)
qed

lemma reachable_queued_iovecs:
  assumes "reachable s"
  shows "queued_iovecs (sd s) =
           map (\<lambda>p. \<lparr>iov_base = xfer_buf (mem s p), iov_len = xfer_buflen (mem s p)\<rparr>)
             (queued_reqs s)"
proof -
  have n: "nat (sint (queued (sd s))) = unat (queued (sd s))"
    using reachable_count [OF assms] by (simp del: of_nat_unat)
  show ?thesis
    using reachable_iov_inv [OF assms]
    by (simp add: queued_iovecs_def queued_reqs_def n iov_inv_def queued_io_u_def)
qed

lemma mem_fio_vsyncio_end_other:
  "p \<notin> set (queued_reqs s) \<Longrightarrow> mem (snd (fio_vsyncio_end s bytes)) p = mem s p"
  by (simp add: fio_vsyncio_end_def Let_def td_verror_def queued_reqs_loop end_list_other)

lemma fio_vsyncio_commit_transfer:
  assumes "queued (sd s) \<noteq> 0" "fst ls \<noteq> - 1"
  shows "syscalls (snd (fio_vsyncio_commit s ls xf)) =
           syscalls s @
             [Lseek (fds s (last_file (sd s))) (offset (mem s (io_us (sd s) 0))),
              (if last_ddir (sd s) = DDIR_READ then Readv else Writev)
                (fds s (last_file (sd s))) (queued_iovecs (sd s))]"
    and "p \<notin> set (queued_reqs s) \<Longrightarrow> mem (snd (fio_vsyncio_commit s ls xf)) p = mem s p"
proof -
  let ?s2 = "s\<lparr>syscalls := syscalls s @
                 [Lseek (fds s (last_file (sd s))) (offset (mem s (io_us (sd s) 0)))],
               errno := snd ls,
               syscalls := (syscalls s @
                 [Lseek (fds s (last_file (sd s))) (offset (mem s (io_us (sd s) 0)))]) @
                 [(if last_ddir (sd s) = DDIR_READ then Readv else Writev)
                    (fds s (last_file (sd s))) (queued_iovecs (sd s))],
               errno := snd xf\<rparr>"
  have c: "fio_vsyncio_commit s ls xf = fio_vsyncio_end ?s2 (fst xf)"
    using assms by (simp add: fio_vsyncio_commit_def Let_def)
  have sc: "syscalls (snd (fio_vsyncio_end t b)) = syscalls t" for t b
    by (simp add: fio_vsyncio_end_def Let_def td_verror_def)
  show "syscalls (snd (fio_vsyncio_commit s ls xf)) =
           syscalls s @
             [Lseek (fds s (last_file (sd s))) (offset (mem s (io_us (sd s) 0))),
              (if last_ddir (sd s) = DDIR_READ then Readv else Writev)
                (fds s (last_file (sd s))) (queued_iovecs (sd s))]"
    unfolding c sc by simp
  have q: "queued_reqs ?s2 = queued_reqs s"
    by (simp add: queued_reqs_def)
  show "mem (snd (fio_vsyncio_commit s ls xf)) p = mem s p" if "p \<notin> set (queued_reqs s)"
    unfolding c using mem_fio_vsyncio_end_other [of p ?s2 "fst xf"] that q by simp
qed

subsection \<open>The example states evaluated\<close>

lemma ex_reachable:
  "reachable ex_init" "reachable ex_batch1" "reachable ex_batch2" "reachable ex_batch3"
proof -
  have "0 < sint (iodepth ex_boot)"
    by (simp add: ex_boot_def)
  then show i: "reachable ex_init"
    unfolding ex_init_def by (rule reachable.init)
  then show b1: "reachable ex_batch1"
    unfolding ex_batch1_def by (rule reachable.queue)
  then show b2: "reachable ex_batch2"
    unfolding ex_batch2_def by (rule reachable.queue)
  then show "reachable ex_batch3"
    unfolding ex_batch3_def by (rule reachable.queue)
qed

lemma ex_reachable_more:
  "reachable ex_committed" "reachable ex_drained" "reachable ex_stale"
  "reachable ex_big" "reachable ex_huge" "reachable ex_wide"
proof -
  show c: "reachable ex_committed"
    unfolding ex_committed_def by (rule reachable.commit) (rule ex_reachable)
  then show d: "reachable ex_drained"
    unfolding ex_drained_def by (rule reachable.getevents)
  then show "reachable ex_stale"
    unfolding ex_stale_def by (rule reachable.queue)
  show "reachable ex_big"
    unfolding ex_big_def by (intro reachable.queue) (rule ex_reachable)
  show "reachable ex_huge"
    unfolding ex_huge_def by (rule reachable.queue) (rule ex_reachable)
  show "reachable ex_wide"
    unfolding ex_wide_def by (rule reachable.queue) (rule ex_reachable)
qed

lemma ex_batch3_fields:
  "queued (sd ex_batch3) = 3 \<and> queued_bytes (sd ex_batch3) = 350 \<and>
   last_offset (sd ex_batch3) = 350 \<and> map (io_us (sd ex_batch3)) [0, 1, 2] = [1, 2, 3]"
  by (simp add: ex_defs)

lemma ex_batch3_reqs: "queued_reqs ex_batch3 = [1, 2, 3]"
  by (simp add: queued_reqs_def ex_defs upt_rec)

lemma ex_batch3_lens: "queued_lens ex_batch3 = [100, 200, 50]"
  by (simp add: queued_lens_def ex_batch3_reqs) (simp add: ex_defs)

lemma ex_batch3_short:
  "map (\<lambda>p. resid (mem (snd (fio_vsyncio_end ex_batch3 250)) p)) (queued_reqs ex_batch3) = [0, 50, 50]"
  by (simp add: fio_vsyncio_end_def Let_def end_loop_end_list queued_reqs_def ex_defs upt_rec
     end_bytes_def end_io_u_def this_io_def)

lemma ex_committed_fields:
  "queued (sd ex_committed) = 1 \<and> queued_bytes (sd ex_committed) = 100
   \<and> last_offset (sd ex_committed) = 100 \<and> last_file (sd ex_committed) = 7
   \<and> last_ddir (sd ex_committed) = DDIR_READ \<and> io_us (sd ex_committed) 0 = 1
   \<and> mem ex_committed = ex_mem \<and> iodepth ex_committed = 3"
  by (simp add: ex_committed_def fio_vsyncio_commit_def fio_vsyncio_end_def Let_def ex_defs)

lemma ex_drained_fields:
  "queued (sd ex_drained) = 0 \<and> queued_bytes (sd ex_drained) = 100
   \<and> last_offset (sd ex_drained) = 100 \<and> last_file (sd ex_drained) = 7
   \<and> last_ddir (sd ex_drained) = DDIR_READ
   \<and> mem ex_drained = ex_mem \<and> iodepth ex_drained = 3"
  by (simp add: ex_drained_def fio_vsyncio_getevents_def ex_committed_fields)

lemma ex_stale_fields:
  "queued (sd ex_stale) = 1 \<and> queued_bytes (sd ex_stale) = 300
   \<and> io_us (sd ex_stale) 0 = 2 \<and> mem ex_stale = ex_mem"
  by (simp add: ex_stale_def ex_drained_def fio_vsyncio_getevents_def ex_committed_def
      fio_vsyncio_commit_def fio_vsyncio_end_def Let_def ex_defs)

lemma ex_stale_reqs: "queued_reqs ex_stale = [2]"
  by (simp add: queued_reqs_def ex_stale_fields upt_rec)

lemma ex_stale_lens: "queued_lens ex_stale = [200]"
  by (simp add: queued_lens_def ex_stale_reqs ex_stale_fields) (simp add: ex_mem_def ex_req_def)

lemma ex_stale_short:
  "map (\<lambda>p. resid (mem (snd (fio_vsyncio_end ex_stale 50)) p)) [2] = [150]"
  by (simp add: fio_vsyncio_end_def Let_def end_loop_end_list ex_stale_fields upt_rec)
     (simp add: ex_mem_def ex_req_def end_bytes_def end_io_u_def this_io_def)

lemma ex_big_fields:
  "queued (sd ex_big) = 2 \<and> queued_bytes (sd ex_big) = 6442450944
   \<and> io_us (sd ex_big) 0 = 8 \<and> io_us (sd ex_big) 1 = 9 \<and> mem ex_big = ex_mem"
  by (simp add: ex_big_def ex_defs)

lemma ex_big_reqs: "queued_reqs ex_big = [8, 9]"
  by (simp add: queued_reqs_def ex_big_fields upt_rec)

lemma ex_big_lens: "queued_lens ex_big = [3221225472, 3221225472]"
  by (simp add: queued_lens_def ex_big_reqs ex_big_fields) (simp add: ex_mem_def ex_req_def)

lemma ex_big_short:
  "map (\<lambda>p. resid (mem (snd (fio_vsyncio_end ex_big 4294967296)) p)) [8, 9] =
     [3221225472, 3221225472]"
  by (simp add: fio_vsyncio_end_def Let_def end_loop_end_list ex_big_fields upt_rec)
     (simp add: ex_mem_def ex_req_def end_bytes_def end_io_u_def this_io_def)

lemma ex_wide_fields:
  "queued (sd ex_wide) = 1 \<and> queued_bytes (sd ex_wide) = 4294967396
   \<and> io_us (sd ex_wide) 0 = 10 \<and> mem ex_wide = ex_mem"
  by (simp add: ex_wide_def ex_defs)

lemma ex_wide_reqs: "queued_reqs ex_wide = [10]"
  by (simp add: queued_reqs_def ex_wide_fields upt_rec)

lemma ex_wide_lens: "queued_lens ex_wide = [4294967396]"
  by (simp add: queued_lens_def ex_wide_reqs ex_wide_fields) (simp add: ex_mem_def ex_req_def)

lemma ex_wide_short:
  "map (\<lambda>p. resid (mem (snd (fio_vsyncio_end ex_wide 50)) p)) [10] = [50]"
  by (simp add: fio_vsyncio_end_def Let_def end_loop_end_list ex_wide_fields upt_rec)
     (simp add: ex_mem_def ex_req_def end_bytes_def end_io_u_def this_io_def)

lemma ex_huge_fields:
  "queued (sd ex_huge) = 1 \<and> queued_bytes (sd ex_huge) = - 1 \<and> io_us (sd ex_huge) 0 = 6
   \<and> last_ddir (sd ex_huge) = DDIR_WRITE \<and> mem ex_huge = ex_mem \<and> verrors ex_huge = []"
  by (simp add: ex_huge_def ex_defs)

lemma ex_wrap_fields:
  "queued (sd ex_wrap) = 2 \<and> last_offset (sd ex_wrap) = 24
   \<and> io_us (sd ex_wrap) 0 = 12 \<and> io_us (sd ex_wrap) 1 = 13 \<and> mem ex_wrap = ex_mem"
  by (simp add: ex_wrap_def ex_defs)

lemma ex_wrap_reachable: "reachable ex_wrap"
  unfolding ex_wrap_def by (intro reachable.queue) (rule ex_reachable)

lemma ex_batch3_iovecs:
  "map (\<lambda>p. \<lparr>iov_base = xfer_buf (mem ex_batch3 p), iov_len = xfer_buflen (mem ex_batch3 p)\<rparr>)
     [1, 2, 3] =
   [\<lparr>iov_base = 4096, iov_len = 100\<rparr>, \<lparr>iov_base = 4096, iov_len = 200\<rparr>,
    \<lparr>iov_base = 4096, iov_len = 50\<rparr>]
   \<and> syscalls ex_batch3 = [] \<and> fds ex_batch3 (last_file (sd ex_batch3)) = 3
   \<and> last_ddir (sd ex_batch3) = DDIR_READ
   \<and> offset (mem ex_batch3 (io_us (sd ex_batch3) 0)) = 0"
  by (simp add: ex_defs)

subsection \<open>Short transfers\<close>

text \<open>
  C1, as the code has it. Take a reachable state whose queued requests are each shorter
  than \<open>2 ^ 32\<close> bytes, and a returned byte count between 0 and \<open>2 ^ 32 - 1\<close> that differs
  from the tracked total \<^verbatim>\<open>sd->queued_bytes\<close>. Then \<^verbatim>\<open>fio_vsyncio_end\<close> returns 0 and, in
  queue order, request \<open>i\<close> receives the minimum of the remaining pool and its length, its
  \<^verbatim>\<open>resid\<close> is its length minus what it received, its \<^verbatim>\<open>error\<close> is 0, and a request
  reached after the pool is used up keeps its full length as residual. For the lengths
  100, 200, 50 and 250 bytes returned the residuals are 0, 50, 50.
\<close>

theorem C1_short_transfer:
  assumes "reachable s"
    and "\<forall>p\<in>set (queued_reqs s). unat (xfer_buflen (mem s p)) < 2 ^ 32"
    and "unat bytes < 2 ^ 32"
    and "bytes \<noteq> queued_bytes (sd s)"
  shows "fst (fio_vsyncio_end s bytes) = 0
       \<and> map (\<lambda>p. unat (resid (mem (snd (fio_vsyncio_end s bytes)) p))) (queued_reqs s) =
           map2 (-) (queued_lens s) (spec_received (unat bytes) (queued_lens s))
       \<and> (\<forall>p\<in>set (queued_reqs s). error (mem (snd (fio_vsyncio_end s bytes)) p) = 0)
       \<and> (\<forall>i<length (queued_reqs s). unat bytes \<le> sum_list (take i (queued_lens s)) \<longrightarrow>
            unat (resid (mem (snd (fio_vsyncio_end s bytes)) (queued_reqs s ! i))) =
              queued_lens s ! i)
       \<and> queued_lens ex_batch3 = [100, 200, 50]
       \<and> map (\<lambda>p. resid (mem (snd (fio_vsyncio_end ex_batch3 250)) p)) (queued_reqs ex_batch3) =
           [0, 50, 50]"
proof -
  have tw: "twice_empty (mem s) (queued_reqs s)"
    using reachable_batch_inv [OF assms(1)] assms(2) by (rule batch_inv_twice_empty)
  note r = fio_vsyncio_end_short [OF tw assms(2-4)]
  have "unat (resid (mem (snd (fio_vsyncio_end s bytes)) (queued_reqs s ! i))) = queued_lens s ! i"
    if "i < length (queued_reqs s)" "unat bytes \<le> sum_list (take i (queued_lens s))" for i
  proof -
    have "map (\<lambda>p. unat (resid (mem (snd (fio_vsyncio_end s bytes)) p))) (queued_reqs s) ! i =
            spec_residuals (unat bytes) (queued_lens s) ! i"
      by (simp only: r(2))
    moreover have "i < length (queued_lens s)"
      using that(1) by (simp add: queued_lens_def)
    ultimately show ?thesis
      using that by (simp add: spec_residuals_exhausted)
  qed
  then show ?thesis
    using r by (simp add: spec_residuals_received ex_batch3_lens ex_batch3_short)
qed

text \<open>The theorem at the batch of requests 1, 2, 3 with 250 bytes returned.\<close>

theorem C1_short_transfer_witness:
  "reachable ex_batch3
   \<and> list_all (\<lambda>p. unat (xfer_buflen (mem ex_batch3 p)) < 2 ^ 32) (queued_reqs ex_batch3)
   \<and> unat (250 :: u64) < 2 ^ 32 \<and> 250 \<noteq> queued_bytes (sd ex_batch3)
   \<and> fst (fio_vsyncio_end ex_batch3 250) = 0
   \<and> map (\<lambda>p. unat (resid (mem (snd (fio_vsyncio_end ex_batch3 250)) p))) [1, 2, 3] = [0, 50, 50]
   \<and> list_all (\<lambda>p. error (mem (snd (fio_vsyncio_end ex_batch3 250)) p) = 0) [1, 2, 3]
   \<and> unat (resid (mem (snd (fio_vsyncio_end ex_batch3 250)) 3)) = 50"
proof -
  have l: "\<forall>p\<in>set (queued_reqs ex_batch3). unat (xfer_buflen (mem ex_batch3 p)) < 2 ^ 32"
    by (simp add: ex_batch3_reqs) (simp add: ex_defs)
  have b: "unat (250 :: u64) < 2 ^ 32"
    by simp
  have n: "250 \<noteq> queued_bytes (sd ex_batch3)"
    by (simp add: ex_defs)
  show ?thesis
    using C1_short_transfer [OF ex_reachable(4) l b n] ex_reachable(4) l n
    by (simp add: ex_batch3_reqs ex_batch3_lens list_all_iff)
qed

text \<open>
  Without the bounds the rule fails. \<^verbatim>\<open>this_io\<close> is an \<^verbatim>\<open>unsigned int\<close>: with two requests
  of 3 GiB and \<open>2 ^ 32\<close> bytes returned it is 0, both requests keep 3 GiB as residual,
  where the rule gives them 3 GiB and 1 GiB. \<^verbatim>\<open>resid\<close> is an \<^verbatim>\<open>unsigned int\<close> too: a request
  of \<open>2 ^ 32 + 100\<close> bytes that received 50 ends with the residual 50.
\<close>

theorem C1_counterexample:
  "reachable ex_big
   \<and> queued_reqs ex_big = [8, 9]
   \<and> queued_lens ex_big = [3221225472, 3221225472]
   \<and> 4294967296 \<noteq> queued_bytes (sd ex_big)
   \<and> spec_received (unat (4294967296 :: u64)) (queued_lens ex_big) = [3221225472, 1073741824]
   \<and> unat (resid (mem (snd (fio_vsyncio_end ex_big 4294967296)) 8)) = 3221225472
   \<and> unat (resid (mem (snd (fio_vsyncio_end ex_big 4294967296)) 9)) = 3221225472
   \<and> reachable ex_wide
   \<and> queued_reqs ex_wide = [10]
   \<and> queued_lens ex_wide = [4294967396]
   \<and> 50 \<noteq> queued_bytes (sd ex_wide)
   \<and> spec_received (unat (50 :: u64)) (queued_lens ex_wide) = [50]
   \<and> unat (resid (mem (snd (fio_vsyncio_end ex_wide 50)) 10)) = 50"
  using ex_big_short ex_wide_short ex_reachable_more
  by (simp add: ex_big_lens ex_big_reqs ex_big_fields ex_wide_lens ex_wide_reqs ex_wide_fields)

subsection \<open>What commit does to the batch\<close>

text \<open>
  C2, as the code has it. Whatever the outcome of its system calls, commit leaves the
  last-offset/file/direction fields as they were, so a request passes the mergeability
  test after the commit exactly when it passed before. Every \<^verbatim>\<open>getevents\<close> with
  \<open>min \<noteq> 0\<close> that follows sets the queued count to zero and leaves those fields and the
  outcome of the test as they were. A request that is not a sync and fails the test is
  then queued as the only request of a fresh batch, whose cumulative bytes are its
  length.
\<close>

theorem C2_commit_keeps_last_fields:
  "last_offset (sd (snd (fio_vsyncio_commit s ls xf))) = last_offset (sd s)
   \<and> last_file (sd (snd (fio_vsyncio_commit s ls xf))) = last_file (sd s)
   \<and> last_ddir (sd (snd (fio_vsyncio_commit s ls xf))) = last_ddir (sd s)
   \<and> fio_vsyncio_append (snd (fio_vsyncio_commit s ls xf)) p = fio_vsyncio_append s p
   \<and> (min_ev \<noteq> 0 \<longrightarrow>
        queued (sd (snd (fio_vsyncio_getevents (snd (fio_vsyncio_commit s ls xf)) min_ev max_ev)))
          = 0
      \<and> last_offset (sd (snd (fio_vsyncio_getevents (snd (fio_vsyncio_commit s ls xf))
            min_ev max_ev))) = last_offset (sd s)
      \<and> last_file (sd (snd (fio_vsyncio_getevents (snd (fio_vsyncio_commit s ls xf))
            min_ev max_ev))) = last_file (sd s)
      \<and> last_ddir (sd (snd (fio_vsyncio_getevents (snd (fio_vsyncio_commit s ls xf))
            min_ev max_ev))) = last_ddir (sd s)
      \<and> fio_vsyncio_append
            (snd (fio_vsyncio_getevents (snd (fio_vsyncio_commit s ls xf)) min_ev max_ev)) p
          = fio_vsyncio_append s p
      \<and> (\<not> fio_vsyncio_append s p \<and> ddir (mem s p) \<noteq> DDIR_SYNC \<longrightarrow>
            fst (fio_vsyncio_queue
                  (snd (fio_vsyncio_getevents (snd (fio_vsyncio_commit s ls xf)) min_ev max_ev))
                  p fs) = FIO_Q_QUEUED
          \<and> queued_reqs (snd (fio_vsyncio_queue
                  (snd (fio_vsyncio_getevents (snd (fio_vsyncio_commit s ls xf)) min_ev max_ev))
                  p fs)) = [p]
          \<and> queued_bytes (sd (snd (fio_vsyncio_queue
                  (snd (fio_vsyncio_getevents (snd (fio_vsyncio_commit s ls xf)) min_ev max_ev))
                  p fs))) = xfer_buflen (mem s p)))"
proof -
  let ?c = "snd (fio_vsyncio_commit s ls xf)"
  let ?g = "snd (fio_vsyncio_getevents ?c min_ev max_ev)"
  have c: "sd ?c = sd s" and rc: "request_of (mem ?c p) = request_of (mem s p)"
    by simp_all
  have ac: "fio_vsyncio_append ?c p = fio_vsyncio_append s p"
    by (rule append_request_of) simp_all
  have g: "queued (sd ?g) = 0 \<and> last_offset (sd ?g) = last_offset (sd s)
      \<and> last_file (sd ?g) = last_file (sd s) \<and> last_ddir (sd ?g) = last_ddir (sd s)
      \<and> request_of (mem ?g p) = request_of (mem s p)"
    if "min_ev \<noteq> 0"
    using that rc by (simp add: fio_vsyncio_getevents_def Let_def)
  have ag: "fio_vsyncio_append ?g p = fio_vsyncio_append s p" if "min_ev \<noteq> 0"
    using g [OF that] by (simp add: fio_vsyncio_append_def request_of_def Let_def)
  have polled: "queued (sd ?g) = 0 \<and> last_offset (sd ?g) = last_offset (sd s)
      \<and> last_file (sd ?g) = last_file (sd s) \<and> last_ddir (sd ?g) = last_ddir (sd s)
      \<and> fio_vsyncio_append ?g p = fio_vsyncio_append s p
      \<and> request_of (mem ?g p) = request_of (mem s p)"
    if "min_ev \<noteq> 0"
    using g [OF that] ag [OF that] by simp
  have fresh: "fst (fio_vsyncio_queue ?g p fs) = FIO_Q_QUEUED
      \<and> queued_reqs (snd (fio_vsyncio_queue ?g p fs)) = [p]
      \<and> queued_bytes (sd (snd (fio_vsyncio_queue ?g p fs))) = xfer_buflen (mem s p)"
    if "min_ev \<noteq> 0" "\<not> fio_vsyncio_append s p" "ddir (mem s p) \<noteq> DDIR_SYNC"
  proof -
    have "ddir (mem ?g p) = ddir (mem s p)" "xfer_buflen (mem ?g p) = xfer_buflen (mem s p)"
      using polled [OF that(1)] by (simp_all add: request_of_def)
    then show ?thesis
      using polled [OF that(1)] that(2,3)
      by (simp add: fio_vsyncio_queue_def fio_vsyncio_set_iov_def queued_reqs_def)
  qed
  show ?thesis
    using c ac polled fresh by (simp only:) blast
qed

theorem C2_commit_keeps_last_fields_witness:
  "(1 :: u32) \<noteq> 0
   \<and> last_offset (sd (snd (fio_vsyncio_commit ex_batch3 (0, 0) (350, 0)))) = 350
   \<and> fio_vsyncio_append (snd (fio_vsyncio_commit ex_batch3 (0, 0) (350, 0))) 11
   \<and> queued (sd (snd (fio_vsyncio_getevents
        (snd (fio_vsyncio_commit ex_batch3 (0, 0) (350, 0))) 1 1))) = 0
   \<and> \<not> fio_vsyncio_append ex_batch3 4 \<and> ddir (mem ex_batch3 4) \<noteq> DDIR_SYNC
   \<and> fst (fio_vsyncio_queue (snd (fio_vsyncio_getevents
        (snd (fio_vsyncio_commit ex_batch3 (0, 0) (350, 0))) 1 1)) 4 (0, 0)) = FIO_Q_QUEUED
   \<and> queued_reqs (snd (fio_vsyncio_queue (snd (fio_vsyncio_getevents
        (snd (fio_vsyncio_commit ex_batch3 (0, 0) (350, 0))) 1 1)) 4 (0, 0))) = [4]
   \<and> queued_bytes (sd (snd (fio_vsyncio_queue (snd (fio_vsyncio_getevents
        (snd (fio_vsyncio_commit ex_batch3 (0, 0) (350, 0))) 1 1)) 4 (0, 0)))) = 10"
proof -
  have f: "fio_vsyncio_append ex_batch3 11" "\<not> fio_vsyncio_append ex_batch3 4"
    "ddir (mem ex_batch3 4) \<noteq> DDIR_SYNC" "xfer_buflen (mem ex_batch3 4) = 10"
    by (simp_all add: ex_defs)
  show ?thesis
    using C2_commit_keeps_last_fields [of ex_batch3 "(0, 0)" "(350, 0)" 11 1 1 "(0, 0)"]
      C2_commit_keeps_last_fields [of ex_batch3 "(0, 0)" "(350, 0)" 4 1 1 "(0, 0)"] f
    by (simp add: ex_batch3_fields)
qed

text \<open>
  After the successful commit of the batch of request 1 the count is still 1, the bytes
  still 100, the last offset still 100; request 2, which continues request 1, passes the
  mergeability test and is queued as the second request of the same batch.
\<close>

theorem C2_counterexample:
  "reachable ex_batch1
   \<and> queued (sd ex_batch1) = 1
   \<and> ex_committed = snd (fio_vsyncio_commit ex_batch1 (0, 0) (100, 0))
   \<and> fst (fio_vsyncio_commit ex_batch1 (0, 0) (100, 0)) = 0
   \<and> queued (sd ex_committed) = 1
   \<and> queued_bytes (sd ex_committed) = 100
   \<and> last_offset (sd ex_committed) = 100
   \<and> fio_vsyncio_append ex_committed 2
   \<and> fst (fio_vsyncio_queue ex_committed 2 (0, 0)) = FIO_Q_QUEUED
   \<and> queued (sd (snd (fio_vsyncio_queue ex_committed 2 (0, 0)))) = 2"
proof -
  have "queued (sd ex_batch1) = 1 \<and> fst (fio_vsyncio_commit ex_batch1 (0, 0) (100, 0)) = 0"
    by (simp add: fio_vsyncio_commit_def fio_vsyncio_end_def Let_def ex_defs)
  moreover have "fio_vsyncio_append ex_committed 2
      \<and> fst (fio_vsyncio_queue ex_committed 2 (0, 0)) = FIO_Q_QUEUED
      \<and> queued (sd (snd (fio_vsyncio_queue ex_committed 2 (0, 0)))) = 2"
    using ex_committed_fields
    by (simp add: fio_vsyncio_queue_def fio_vsyncio_append_def fio_vsyncio_set_iov_def
        ex_mem_def ex_req_def)
  ultimately show ?thesis
    using ex_committed_fields ex_reachable by (simp add: ex_committed_def)
qed

subsection \<open>A failed transfer\<close>

text \<open>
  Commit on a non-empty batch, \<^verbatim>\<open>lseek\<close> succeeds, the transfer returns \<open>-1\<close> and leaves a
  positive code in \<^verbatim>\<open>errno\<close>. When the tracked total \<^verbatim>\<open>sd->queued_bytes\<close> is not
  \<open>2 ^ 64 - 1\<close>, commit returns the negated code, which is negative, every queued request
  has the code in \<^verbatim>\<open>error\<close>, the code is reported with the label \<^verbatim>\<open>xfer vsync\<close>, no
  \<^verbatim>\<open>resid\<close> changes, and requests outside the batch are untouched; so for the batch of
  requests 1, 2 and 3 and the code 5.
\<close>

lemma fio_vsyncio_commit_failed:
  assumes "queued (sd s) \<noteq> 0" and "fst ls \<noteq> - 1"
    and "fst xf = - 1" and "0 < sint (snd xf)"
    and "queued_bytes (sd s) \<noteq> - 1"
  shows "fst (fio_vsyncio_commit s ls xf) = - snd xf
       \<and> sint (fst (fio_vsyncio_commit s ls xf)) < 0
       \<and> (\<forall>p\<in>set (queued_reqs s). error (mem (snd (fio_vsyncio_commit s ls xf)) p) = snd xf)
       \<and> verrors (snd (fio_vsyncio_commit s ls xf)) = verrors s @ [(snd xf, ''xfer vsync'')]
       \<and> (\<forall>p. resid (mem (snd (fio_vsyncio_commit s ls xf)) p) = resid (mem s p))
       \<and> (\<forall>p. p \<notin> set (queued_reqs s) \<longrightarrow> mem (snd (fio_vsyncio_commit s ls xf)) p = mem s p)"
proof -
  let ?s2 = "s\<lparr>syscalls := syscalls s @
                 [Lseek (fds s (last_file (sd s))) (offset (mem s (io_us (sd s) 0)))],
               errno := snd ls,
               syscalls := (syscalls s @
                 [Lseek (fds s (last_file (sd s))) (offset (mem s (io_us (sd s) 0)))]) @
                 [(if last_ddir (sd s) = DDIR_READ then Readv else Writev)
                    (fds s (last_file (sd s))) (queued_iovecs (sd s))],
               errno := snd xf\<rparr>"
  have c: "fio_vsyncio_commit s ls xf = fio_vsyncio_end ?s2 (- 1)"
    using assms(1-3) by (simp add: fio_vsyncio_commit_def Let_def)
  have q: "queued_reqs ?s2 = queued_reqs s"
    by (simp add: queued_reqs_def)
  have b: "queued_bytes (sd ?s2) \<noteq> - 1"
    using assms(5) by simp
  show ?thesis
    unfolding c fio_vsyncio_end_failed [OF b] q
    using sint_neg_pos [OF assms(4)] by (simp add: td_verror_def)
qed


lemma fio_vsyncio_commit_failed_ex:
  "queued (sd ex_batch3) \<noteq> 0 \<and> queued_bytes (sd ex_batch3) \<noteq> - 1
   \<and> fst (fio_vsyncio_commit ex_batch3 (0, 0) (- 1, 5)) = - 5
   \<and> sint (fst (fio_vsyncio_commit ex_batch3 (0, 0) (- 1, 5))) < 0
   \<and> map (\<lambda>p. error (mem (snd (fio_vsyncio_commit ex_batch3 (0, 0) (- 1, 5))) p)) [1, 2, 3] = [5, 5, 5]
   \<and> verrors (snd (fio_vsyncio_commit ex_batch3 (0, 0) (- 1, 5))) = [(5, ''xfer vsync'')]
   \<and> map (\<lambda>p. resid (mem (snd (fio_vsyncio_commit ex_batch3 (0, 0) (- 1, 5))) p)) [1, 2, 3] = [0, 0, 0]"
proof -
  have f: "queued (sd ex_batch3) \<noteq> 0" "queued_bytes (sd ex_batch3) \<noteq> - 1"
    "verrors ex_batch3 = []" "mem ex_batch3 = ex_mem"
    by (simp_all add: ex_defs)
  show ?thesis
    using fio_vsyncio_commit_failed [of ex_batch3 "(0, 0)" "(- 1, 5)"] f
    by (simp add: ex_batch3_reqs) (simp add: ex_mem_def ex_req_def)
qed


text \<open>
  C3 fails on one batch. \<^verbatim>\<open>fio_vsyncio_end\<close> first tests \<^verbatim>\<open>bytes == sd->queued_bytes\<close>, in
  \<^verbatim>\<open>unsigned long\<close>, where the \<open>-1\<close> of a failed transfer is \<open>2 ^ 64 - 1\<close>. The batch of the
  single request 6, a write of \<open>2 ^ 64 - 1\<close> bytes, is reachable and has that tracked total:
  when its \<^verbatim>\<open>writev\<close> fails with code 5, commit takes the branch for a complete transfer,
  returns 0, leaves the request's \<^verbatim>\<open>error\<close> at 0 and reports nothing, where the loop and
  the \<^verbatim>\<open>td_verror\<close> call below the test are written to mark and report the code.
\<close>

theorem C3_failed_transfer_taken_as_full:
  "reachable ex_huge
   \<and> queued_reqs ex_huge = [6]
   \<and> queued_bytes (sd ex_huge) = - 1
   \<and> fst (fio_vsyncio_commit ex_huge (0, 0) (- 1, 5)) = 0
   \<and> error (mem (snd (fio_vsyncio_commit ex_huge (0, 0) (- 1, 5))) 6) = 0
   \<and> verrors (snd (fio_vsyncio_commit ex_huge (0, 0) (- 1, 5))) = []"
  using ex_reachable_more
  by (simp add: queued_reqs_def fio_vsyncio_commit_def fio_vsyncio_end_def Let_def ex_huge_fields)
     (simp add: ex_defs)

subsection \<open>The mergeability test\<close>

text \<open>
  C4, as the code has it. A request passes \<^verbatim>\<open>fio_vsyncio_append\<close> exactly when it is not
  a sync, its offset is the tracked end offset, its file the tracked file and its
  direction the tracked direction; a sync never passes; a request submitted to a
  non-empty batch is queued exactly when it passes the test and the batch is not full;
  right after \<^verbatim>\<open>init\<close> no request with a non-null file passes.
\<close>

theorem C4_mergeability:
  "(fio_vsyncio_append s p \<longleftrightarrow>
      ddir (mem s p) \<noteq> DDIR_SYNC \<and> offset (mem s p) = last_offset (sd s)
      \<and> file (mem s p) = last_file (sd s) \<and> ddir (mem s p) = last_ddir (sd s))
   \<and> (ddir (mem s p) = DDIR_SYNC \<longrightarrow> \<not> fio_vsyncio_append s p)
   \<and> (queued (sd s) \<noteq> 0 \<longrightarrow>
        (fst (fio_vsyncio_queue s p fs) = FIO_Q_QUEUED \<longleftrightarrow>
           fio_vsyncio_append s p \<and> queued (sd s) \<noteq> iodepth s))
   \<and> (file (mem s p) \<noteq> 0 \<longrightarrow> \<not> fio_vsyncio_append (snd (fio_vsyncio_init s iov0 ius0)) p)"
proof -
  have "fio_vsyncio_append s p \<longleftrightarrow>
      ddir (mem s p) \<noteq> DDIR_SYNC \<and> offset (mem s p) = last_offset (sd s)
      \<and> file (mem s p) = last_file (sd s) \<and> ddir (mem s p) = last_ddir (sd s)"
    by (auto simp add: fio_vsyncio_append_def Let_def)
  moreover have "fst (fio_vsyncio_queue s p fs) = FIO_Q_QUEUED \<longleftrightarrow>
      fio_vsyncio_append s p \<and> queued (sd s) \<noteq> iodepth s" if "queued (sd s) \<noteq> 0"
    using that by (simp add: fio_vsyncio_queue_def)
  moreover have "\<not> fio_vsyncio_append (snd (fio_vsyncio_init s iov0 ius0)) p"
    if "file (mem s p) \<noteq> 0"
    using that by (simp add: fio_vsyncio_append_def fio_vsyncio_init_def Let_def)
  ultimately show ?thesis
    by blast
qed

theorem C4_mergeability_witness:
  "fio_vsyncio_append ex_batch1 2
   \<and> offset (mem ex_batch1 2) = last_offset (sd ex_batch1)
   \<and> file (mem ex_batch1 2) = last_file (sd ex_batch1)
   \<and> ddir (mem ex_batch1 2) = last_ddir (sd ex_batch1)
   \<and> queued (sd ex_batch1) \<noteq> 0 \<and> queued (sd ex_batch1) \<noteq> iodepth ex_batch1
   \<and> fst (fio_vsyncio_queue ex_batch1 2 (0, 0)) = FIO_Q_QUEUED
   \<and> ddir (mem ex_batch1 5) = DDIR_SYNC \<and> \<not> fio_vsyncio_append ex_batch1 5
   \<and> file (mem ex_boot 1) \<noteq> 0 \<and> \<not> fio_vsyncio_append ex_init 1"
  using C4_mergeability [of ex_batch1 2 "(0, 0)"] C4_mergeability [of ex_batch1 5 "(0, 0)"]
    C4_mergeability [of ex_boot 1 "(0, 0)" "\<lambda>i. \<lparr>iov_base = 0, iov_len = 0\<rparr>" "\<lambda>i. 0"]
  by (simp add: ex_defs)

text \<open>
  The test does not look at the queued count. After a commit and a poll the batch is
  empty and the last fields still describe request 1: request 2 passes the test, is
  stored in slot 0, and its length is added to the 100 bytes of the batch before.
\<close>

theorem C4_counterexample:
  "reachable ex_drained
   \<and> queued (sd ex_drained) = 0
   \<and> queued_reqs ex_drained = []
   \<and> fio_vsyncio_append ex_drained 2
   \<and> fst (fio_vsyncio_queue ex_drained 2 (0, 0)) = FIO_Q_QUEUED
   \<and> queued_reqs (snd (fio_vsyncio_queue ex_drained 2 (0, 0))) = [2]
   \<and> queued_bytes (sd (snd (fio_vsyncio_queue ex_drained 2 (0, 0)))) = 300"
  using ex_drained_fields ex_reachable_more
  by (simp add: queued_reqs_def fio_vsyncio_queue_def fio_vsyncio_append_def
      fio_vsyncio_set_iov_def upt_rec)
     (simp add: ex_mem_def ex_req_def)

subsection \<open>The depth bound\<close>

text \<open>
  C5. In every reachable state the queued count is at most the configured depth, and a
  request that passes the mergeability test when the count equals the depth gets
  \<^verbatim>\<open>FIO_Q_BUSY\<close> and leaves the state as it was.
\<close>

theorem C5_depth_bound:
  assumes "reachable s"
  shows "unat (queued (sd s)) \<le> unat (iodepth s)
       \<and> (fio_vsyncio_append s p \<and> queued (sd s) = iodepth s \<longrightarrow>
            fio_vsyncio_queue s p fs = (FIO_Q_BUSY, s))"
  using reachable_batch_inv [OF assms]
  by (simp add: batch_inv_def fio_vsyncio_queue_def)

theorem C5_depth_bound_witness:
  "reachable ex_batch3
   \<and> unat (queued (sd ex_batch3)) \<le> unat (iodepth ex_batch3)
   \<and> fio_vsyncio_append ex_batch3 11 \<and> queued (sd ex_batch3) = iodepth ex_batch3
   \<and> fio_vsyncio_queue ex_batch3 11 (0, 0) = (FIO_Q_BUSY, ex_batch3)"
proof -
  have "fio_vsyncio_append ex_batch3 11 \<and> queued (sd ex_batch3) = iodepth ex_batch3"
    by (simp add: ex_defs)
  then show ?thesis
    using C5_depth_bound [OF ex_reachable(4), of 11 "(0, 0)"] ex_reachable(4) by simp
qed

subsection \<open>The batch is one contiguous range\<close>

text \<open>
  C6, as the code has it. In every reachable state all queued requests have one file and
  one direction, those of the last fields. When the first offset plus the sum of the
  queued lengths is below \<open>2 ^ 64\<close>, the offsets and lengths are gapless as numbers: each
  queued request starts where the one before it ends, request \<open>i\<close> starts at the first
  offset plus the lengths before it, and the tracked end offset is the first offset plus
  the sum of all queued lengths, so the batch covers the range from the first offset up
  to that end.
\<close>

theorem C6_batch_contiguous:
  assumes "reachable s"
  shows "(\<forall>i<unat (queued (sd s)). \<forall>j<unat (queued (sd s)).
            file (queued_io_u s i) = file (queued_io_u s j)
          \<and> ddir (queued_io_u s i) = ddir (queued_io_u s j))
       \<and> (\<forall>i<unat (queued (sd s)).
            file (queued_io_u s i) = last_file (sd s)
          \<and> ddir (queued_io_u s i) = last_ddir (sd s))
       \<and> (unat (offset (queued_io_u s 0))
            + (\<Sum>j<unat (queued (sd s)). unat (xfer_buflen (queued_io_u s j))) < 2 ^ 64 \<longrightarrow>
            (\<forall>i. Suc i < unat (queued (sd s)) \<longrightarrow>
               unat (offset (queued_io_u s (Suc i))) =
                 unat (offset (queued_io_u s i)) + unat (xfer_buflen (queued_io_u s i)))
          \<and> (\<forall>i<unat (queued (sd s)).
               unat (offset (queued_io_u s i)) =
                 unat (offset (queued_io_u s 0))
                   + (\<Sum>j<i. unat (xfer_buflen (queued_io_u s j))))
          \<and> (0 < unat (queued (sd s)) \<longrightarrow>
               unat (last_offset (sd s)) =
                 unat (offset (queued_io_u s 0))
                   + (\<Sum>j<unat (queued (sd s)). unat (xfer_buflen (queued_io_u s j)))))"
proof -
  note inv = reachable_batch_inv [OF assms]
  let ?n = "unat (queued (sd s))"
  have same: "file (queued_io_u s i) = file (queued_io_u s j)
      \<and> ddir (queued_io_u s i) = ddir (queued_io_u s j)"
    if "i < ?n" "j < ?n" for i j
    using batch_inv_first [OF inv that(1)] batch_inv_first [OF inv that(2)] by simp
  have tracked: "file (queued_io_u s i) = last_file (sd s)
      \<and> ddir (queued_io_u s i) = last_ddir (sd s)"
    if "i < ?n" for i
    using batch_inv_first [OF inv that] batch_inv_last [OF inv] that by simp
  have numeric: "(\<forall>i. Suc i < ?n \<longrightarrow>
        unat (offset (queued_io_u s (Suc i))) =
          unat (offset (queued_io_u s i)) + unat (xfer_buflen (queued_io_u s i)))
      \<and> (\<forall>i<?n. unat (offset (queued_io_u s i)) =
          unat (offset (queued_io_u s 0)) + (\<Sum>j<i. unat (xfer_buflen (queued_io_u s j))))
      \<and> (0 < ?n \<longrightarrow> unat (last_offset (sd s)) =
          unat (offset (queued_io_u s 0)) + (\<Sum>j<?n. unat (xfer_buflen (queued_io_u s j))))"
    if nowrap: "unat (offset (queued_io_u s 0))
        + (\<Sum>j<?n. unat (xfer_buflen (queued_io_u s j))) < 2 ^ 64"
  proof -
    have pre: "unat (offset (queued_io_u s i)) =
        unat (offset (queued_io_u s 0)) + (\<Sum>j<i. unat (xfer_buflen (queued_io_u s j)))"
      if "i < ?n" for i
      by (rule batch_inv_numeric [OF inv nowrap that])
    have chain: "unat (offset (queued_io_u s (Suc i))) =
        unat (offset (queued_io_u s i)) + unat (xfer_buflen (queued_io_u s i))"
      if "Suc i < ?n" for i
      using pre [of "Suc i"] pre [of i] that by simp
    show ?thesis
      using pre chain batch_inv_numeric_last [OF inv nowrap] by blast
  qed
  show ?thesis
    using same tracked numeric by blast
qed

theorem C6_batch_contiguous_witness:
  "reachable ex_batch3
   \<and> unat (queued (sd ex_batch3)) = 3
   \<and> unat (offset (queued_io_u ex_batch3 0)) + (100 + 200 + 50) < (2 :: nat) ^ 64
   \<and> map (\<lambda>i. file (queued_io_u ex_batch3 i)) [0, 1, 2] = [7, 7, 7]
   \<and> map (\<lambda>i. ddir (queued_io_u ex_batch3 i)) [0, 1, 2] = [DDIR_READ, DDIR_READ, DDIR_READ]
   \<and> map (\<lambda>i. unat (offset (queued_io_u ex_batch3 i))) [0, 1, 2] = [0, 100, 300]
   \<and> map (\<lambda>i. unat (xfer_buflen (queued_io_u ex_batch3 i))) [0, 1, 2] = [100, 200, 50]
   \<and> unat (last_offset (sd ex_batch3)) = 0 + (100 + 200 + 50)"
proof -
  have "unat (queued (sd ex_batch3)) = 3"
    by (simp add: ex_batch3_fields)
  moreover have "map (queued_io_u ex_batch3) [0, 1, 2] =
      [ex_req DDIR_READ 0 100, ex_req DDIR_READ 100 200, ex_req DDIR_READ 300 50]"
    by (simp add: queued_io_u_def ex_defs)
  ultimately show ?thesis
    using C6_batch_contiguous [OF ex_reachable(4)] ex_reachable(4)
    by (simp add: ex_req_def ex_batch3_fields)
qed

text \<open>
  Requests 12 and 13 form a reachable batch: request 12 writes 32 bytes at offset
  \<open>2 ^ 64 - 16\<close>, and request 13, at offset 16, passes the test against the end offset the
  code computed in \<^verbatim>\<open>unsigned long long\<close>. The second offset is not the first offset
  plus the first length, and the tracked end 24 is below the first offset.
\<close>

theorem C6_counterexample:
  "reachable ex_wrap
   \<and> unat (queued (sd ex_wrap)) = 2
   \<and> unat (offset (queued_io_u ex_wrap 0)) = 18446744073709551600
   \<and> unat (xfer_buflen (queued_io_u ex_wrap 0)) = 32
   \<and> unat (offset (queued_io_u ex_wrap 1)) = 16
   \<and> unat (xfer_buflen (queued_io_u ex_wrap 1)) = 8
   \<and> unat (last_offset (sd ex_wrap)) = 24"
  using ex_wrap_reachable
  by (simp add: queued_io_u_def ex_wrap_fields) (simp add: ex_mem_def ex_req_def)

subsection \<open>Submission that cannot merge\<close>

text \<open>
  C7. With a non-empty batch, submitting a request that fails the mergeability test
  returns \<^verbatim>\<open>FIO_Q_BUSY\<close> and changes nothing: the state after the call, with the queued
  requests, the iovec descriptors, the byte count and the last-offset/file/direction
  fields, is the state before it.
\<close>

theorem C7_busy_leaves_batch:
  assumes "queued (sd s) \<noteq> 0" and "\<not> fio_vsyncio_append s p"
  shows "fio_vsyncio_queue s p fs = (FIO_Q_BUSY, s)"
  using assms by (simp add: fio_vsyncio_queue_def)

theorem C7_busy_leaves_batch_witness:
  "queued (sd ex_batch1) \<noteq> 0 \<and> \<not> fio_vsyncio_append ex_batch1 4 \<and>
   fio_vsyncio_queue ex_batch1 4 (0, 0) = (FIO_Q_BUSY, ex_batch1)"
  using C7_busy_leaves_batch [of ex_batch1 4 "(0, 0)"] by (simp add: ex_defs)

subsection \<open>Polling\<close>

text \<open>
  C8, as the code has it. \<^verbatim>\<open>getevents\<close> with \<open>min \<noteq> 0\<close> returns \<^verbatim>\<open>sd->queued\<close> and sets it
  to zero, so the next call returns zero whatever its \<open>min\<close>; in a reachable state the
  \<^verbatim>\<open>int\<close> returned is the number of queued requests. When a commit of a non-empty batch
  in a reachable state gets past \<^verbatim>\<open>lseek\<close>, it makes one vectored transfer, of the
  buffers of exactly the queued requests in queue order, it changes no request outside
  the batch, and the \<^verbatim>\<open>getevents\<close> that follows returns the number of those requests.
  With \<open>min = 0\<close> \<^verbatim>\<open>getevents\<close> returns zero and changes nothing. It makes no system
  call, and being a total function it always returns.
\<close>

theorem C8_poll:
  "(min_ev \<noteq> 0 \<longrightarrow>
      fst (fio_vsyncio_getevents s min_ev max_ev) = queued (sd s)
      \<and> queued (sd (snd (fio_vsyncio_getevents s min_ev max_ev))) = 0
      \<and> fst (fio_vsyncio_getevents (snd (fio_vsyncio_getevents s min_ev max_ev)) min_ev' max_ev')
          = 0)
   \<and> (min_ev \<noteq> 0 \<and> reachable s \<longrightarrow>
        sint (fst (fio_vsyncio_getevents s min_ev max_ev)) = int (length (queued_reqs s)))
   \<and> (min_ev \<noteq> 0 \<and> reachable s \<and> queued (sd s) \<noteq> 0 \<and> fst ls \<noteq> - 1 \<longrightarrow>
        syscalls (snd (fio_vsyncio_commit s ls xf)) =
          syscalls s @
            [Lseek (fds s (last_file (sd s))) (offset (mem s (io_us (sd s) 0))),
             (if last_ddir (sd s) = DDIR_READ then Readv else Writev)
               (fds s (last_file (sd s)))
               (map (\<lambda>p. \<lparr>iov_base = xfer_buf (mem s p), iov_len = xfer_buflen (mem s p)\<rparr>)
                  (queued_reqs s))]
      \<and> (\<forall>p. p \<notin> set (queued_reqs s) \<longrightarrow> mem (snd (fio_vsyncio_commit s ls xf)) p = mem s p)
      \<and> sint (fst (fio_vsyncio_getevents (snd (fio_vsyncio_commit s ls xf)) min_ev max_ev))
          = int (length (queued_reqs s)))
   \<and> fio_vsyncio_getevents s 0 max_ev = (0, s)
   \<and> syscalls (snd (fio_vsyncio_getevents s min_ev max_ev)) = syscalls s"
proof -
  have len: "int (length (queued_reqs s)) = int (unat (queued (sd s)))"
    by (simp add: queued_reqs_def del: of_nat_unat)
  have count: "sint (queued (sd s)) = int (length (queued_reqs s))" if "reachable s"
    using reachable_count [OF that] len by (simp del: of_nat_unat)
  have tr: "syscalls (snd (fio_vsyncio_commit s ls xf)) =
          syscalls s @
            [Lseek (fds s (last_file (sd s))) (offset (mem s (io_us (sd s) 0))),
             (if last_ddir (sd s) = DDIR_READ then Readv else Writev)
               (fds s (last_file (sd s)))
               (map (\<lambda>p. \<lparr>iov_base = xfer_buf (mem s p), iov_len = xfer_buflen (mem s p)\<rparr>)
                  (queued_reqs s))]"
    if "reachable s" "queued (sd s) \<noteq> 0" "fst ls \<noteq> - 1"
    using fio_vsyncio_commit_transfer(1) [OF that(2,3), of xf] reachable_queued_iovecs [OF that(1)]
    by (simp only:)
  have other: "\<forall>p. p \<notin> set (queued_reqs s) \<longrightarrow> mem (snd (fio_vsyncio_commit s ls xf)) p = mem s p"
    if "queued (sd s) \<noteq> 0" "fst ls \<noteq> - 1"
    using fio_vsyncio_commit_transfer(2) [OF that] by blast
  have polls: "fst (fio_vsyncio_getevents s min_ev max_ev) = queued (sd s)
      \<and> queued (sd (snd (fio_vsyncio_getevents s min_ev max_ev))) = 0
      \<and> fst (fio_vsyncio_getevents (snd (fio_vsyncio_getevents s min_ev max_ev)) min_ev' max_ev') = 0"
    if "min_ev \<noteq> 0"
    using that by (simp add: fio_vsyncio_getevents_def)
  have signed: "sint (fst (fio_vsyncio_getevents s min_ev max_ev)) = int (length (queued_reqs s))"
    if "min_ev \<noteq> 0" "reachable s"
    using that count by (simp add: fio_vsyncio_getevents_def)
  have after: "sint (fst (fio_vsyncio_getevents (snd (fio_vsyncio_commit s ls xf)) min_ev max_ev))
      = int (length (queued_reqs s))"
    if "min_ev \<noteq> 0" "reachable s"
    using that count by (simp add: fio_vsyncio_getevents_def)
  have rest: "fio_vsyncio_getevents s 0 max_ev = (0, s)
      \<and> syscalls (snd (fio_vsyncio_getevents s min_ev max_ev)) = syscalls s"
    by (simp add: fio_vsyncio_getevents_def)
  show ?thesis
    using tr other polls signed after rest by blast
qed

theorem C8_poll_witness:
  "(1 :: u32) \<noteq> 0 \<and> reachable ex_batch3 \<and> queued (sd ex_batch3) \<noteq> 0
   \<and> fst (0 :: u64, 0 :: u32) \<noteq> - 1
   \<and> length (queued_reqs ex_batch3) = 3
   \<and> syscalls (snd (fio_vsyncio_commit ex_batch3 (0, 0) (350, 0))) =
       [Lseek 3 0,
        Readv 3 [\<lparr>iov_base = 4096, iov_len = 100\<rparr>, \<lparr>iov_base = 4096, iov_len = 200\<rparr>,
                 \<lparr>iov_base = 4096, iov_len = 50\<rparr>]]
   \<and> sint (fst (fio_vsyncio_getevents (snd (fio_vsyncio_commit ex_batch3 (0, 0) (350, 0))) 1 1)) = 3
   \<and> fst (fio_vsyncio_getevents ex_batch3 1 1) = 3
   \<and> sint (fst (fio_vsyncio_getevents ex_batch3 1 1)) = 3
   \<and> queued (sd (snd (fio_vsyncio_getevents ex_batch3 1 1))) = 0
   \<and> fst (fio_vsyncio_getevents (snd (fio_vsyncio_getevents ex_batch3 1 1)) 1 1) = 0
   \<and> fio_vsyncio_getevents ex_batch3 0 1 = (0, ex_batch3)"
  using C8_poll [of 1 ex_batch3 1 1 1 "(0, 0)" "(350, 0)"] ex_reachable(4) ex_batch3_iovecs
  by (simp add: ex_batch3_fields ex_batch3_reqs)

text \<open>
  The value returned is the queued count, whatever the last commit did. After a commit
  of the batch of requests 1, 2 and 3 whose \<^verbatim>\<open>lseek\<close> failed, no transfer was made and no
  request was touched, and \<^verbatim>\<open>getevents\<close> returns 3; on the batch of requests 1 and 2,
  which was never committed, it returns 2.
\<close>

theorem C8_counterexample:
  "reachable ex_batch3
   \<and> queued_reqs ex_batch3 = [1, 2, 3]
   \<and> syscalls (snd (fio_vsyncio_commit ex_batch3 (- 1, 5) (350, 0))) = [Lseek 3 0]
   \<and> mem (snd (fio_vsyncio_commit ex_batch3 (- 1, 5) (350, 0))) = mem ex_batch3
   \<and> fst (fio_vsyncio_getevents (snd (fio_vsyncio_commit ex_batch3 (- 1, 5) (350, 0))) 1 1) = 3
   \<and> reachable ex_batch2
   \<and> syscalls ex_batch2 = []
   \<and> fst (fio_vsyncio_getevents ex_batch2 1 1) = 2"
proof -
  have "syscalls (snd (fio_vsyncio_commit ex_batch3 (- 1, 5) (350, 0))) = [Lseek 3 0]
      \<and> mem (snd (fio_vsyncio_commit ex_batch3 (- 1, 5) (350, 0))) = mem ex_batch3
      \<and> fst (fio_vsyncio_getevents (snd (fio_vsyncio_commit ex_batch3 (- 1, 5) (350, 0))) 1 1) = 3"
    using ex_batch3_iovecs
    by (simp add: fio_vsyncio_commit_def Let_def td_verror_def fio_vsyncio_getevents_def
        ex_batch3_fields)
  moreover have "syscalls ex_batch2 = [] \<and> fst (fio_vsyncio_getevents ex_batch2 1 1) = 2"
    by (simp add: fio_vsyncio_getevents_def ex_defs)
  ultimately show ?thesis
    using ex_reachable ex_batch3_reqs by simp
qed

subsection \<open>Positioning failure\<close>

text \<open>
  C9. When \<^verbatim>\<open>lseek\<close> to the first request's offset fails (returns \<open>-1\<close>, leaving a positive
  error code in \<^verbatim>\<open>errno\<close>), commit makes no other system call, reports the code with the
  label \<^verbatim>\<open>lseek\<close>, returns the negated code, which is negative, and leaves the engine data
  (queued requests, count, bytes, last fields) and every request as they were.
\<close>

theorem C9_lseek_failure:
  assumes "queued (sd s) \<noteq> 0" and "fst ls = - 1" and "0 < sint (snd ls)"
  shows "fst (fio_vsyncio_commit s ls xf) = - snd ls
       \<and> sint (fst (fio_vsyncio_commit s ls xf)) < 0
       \<and> syscalls (snd (fio_vsyncio_commit s ls xf)) =
           syscalls s @ [Lseek (fds s (last_file (sd s))) (offset (mem s (io_us (sd s) 0)))]
       \<and> verrors (snd (fio_vsyncio_commit s ls xf)) = verrors s @ [(snd ls, ''lseek'')]
       \<and> sd (snd (fio_vsyncio_commit s ls xf)) = sd s
       \<and> mem (snd (fio_vsyncio_commit s ls xf)) = mem s
       \<and> iodepth (snd (fio_vsyncio_commit s ls xf)) = iodepth s"
  using assms sint_neg_pos [of "snd ls"]
  by (simp add: fio_vsyncio_commit_def td_verror_def Let_def)

theorem C9_lseek_failure_witness:
  "queued (sd ex_batch3) \<noteq> 0 \<and> fst (- 1 :: u64, 5 :: u32) = - 1 \<and> 0 < sint (snd (- 1 :: u64, 5 :: u32))
   \<and> sint (fst (fio_vsyncio_commit ex_batch3 (- 1, 5) (350, 0))) < 0
   \<and> syscalls (snd (fio_vsyncio_commit ex_batch3 (- 1, 5) (350, 0))) = [Lseek 3 0]
   \<and> verrors (snd (fio_vsyncio_commit ex_batch3 (- 1, 5) (350, 0))) = [(5, ''lseek'')]
   \<and> sd (snd (fio_vsyncio_commit ex_batch3 (- 1, 5) (350, 0))) = sd ex_batch3
   \<and> mem (snd (fio_vsyncio_commit ex_batch3 (- 1, 5) (350, 0))) = mem ex_batch3"
  using C9_lseek_failure [of ex_batch3 "(- 1, 5)" "(350, 0)"]
  by (simp add: ex_defs)

subsection \<open>Byte conservation\<close>

text \<open>
  C10, as the code has it. Take a reachable state whose queued requests are each shorter
  than \<open>2 ^ 32\<close> bytes, and a returned byte count below \<open>2 ^ 32\<close>, below the sum of the
  queued lengths and different from the tracked total \<^verbatim>\<open>sd->queued_bytes\<close>. After
  \<^verbatim>\<open>fio_vsyncio_end\<close> the residuals of the queued requests sum to the sum of their lengths
  minus the byte count (the tracked total minus the byte count, when the tracked total is
  that sum), and every queued request has \<^verbatim>\<open>error\<close> 0.
\<close>

theorem C10_byte_conservation:
  assumes "reachable s"
    and "\<forall>p\<in>set (queued_reqs s). unat (xfer_buflen (mem s p)) < 2 ^ 32"
    and "unat bytes < 2 ^ 32"
    and "unat bytes < sum_list (queued_lens s)"
    and "bytes \<noteq> queued_bytes (sd s)"
  shows "sum_list (map (\<lambda>p. unat (resid (mem (snd (fio_vsyncio_end s bytes)) p))) (queued_reqs s))
           = sum_list (queued_lens s) - unat bytes
       \<and> (unat (queued_bytes (sd s)) = sum_list (queued_lens s) \<longrightarrow>
            sum_list (map (\<lambda>p. unat (resid (mem (snd (fio_vsyncio_end s bytes)) p)))
              (queued_reqs s))
              = unat (queued_bytes (sd s)) - unat bytes)
       \<and> (\<forall>p\<in>set (queued_reqs s). error (mem (snd (fio_vsyncio_end s bytes)) p) = 0)"
proof -
  have tw: "twice_empty (mem s) (queued_reqs s)"
    using reachable_batch_inv [OF assms(1)] assms(2) by (rule batch_inv_twice_empty)
  note r = fio_vsyncio_end_short [OF tw assms(2,3,5)]
  show ?thesis
    using r(3) by (simp only: r(2) sum_list_spec_residuals) simp
qed

theorem C10_byte_conservation_witness:
  "reachable ex_batch3
   \<and> unat (250 :: u64) < sum_list (queued_lens ex_batch3)
   \<and> 250 \<noteq> queued_bytes (sd ex_batch3)
   \<and> unat (queued_bytes (sd ex_batch3)) = sum_list (queued_lens ex_batch3)
   \<and> sum_list (map (\<lambda>p. unat (resid (mem (snd (fio_vsyncio_end ex_batch3 250)) p))) [1, 2, 3])
       = 350 - 250
   \<and> list_all (\<lambda>p. error (mem (snd (fio_vsyncio_end ex_batch3 250)) p) = 0) [1, 2, 3]"
proof -
  have l: "\<forall>p\<in>set (queued_reqs ex_batch3). unat (xfer_buflen (mem ex_batch3 p)) < 2 ^ 32"
    by (simp add: ex_batch3_reqs) (simp add: ex_defs)
  have b: "unat (250 :: u64) < 2 ^ 32"
    by simp
  have t: "unat (250 :: u64) < sum_list (queued_lens ex_batch3)"
    by (simp add: ex_batch3_lens)
  have n: "250 \<noteq> queued_bytes (sd ex_batch3)"
    by (simp add: ex_batch3_fields)
  have q: "unat (queued_bytes (sd ex_batch3)) = sum_list (queued_lens ex_batch3)"
    by (simp add: ex_batch3_lens ex_batch3_fields)
  show ?thesis
    using C10_byte_conservation [OF ex_reachable(4) l b t n] ex_reachable(4) t n q
    by (simp add: ex_batch3_reqs ex_batch3_lens list_all_iff)
qed

text \<open>
  The tracked total is not always the sum of the queued lengths: request 2 queued after
  request 1 was committed and polled makes a batch of 200 bytes with a tracked total of
  300, and 50 bytes returned leave a residual of 150, not 250. With two requests of
  3 GiB and \<open>2 ^ 32\<close> bytes returned the residuals sum to 6 GiB, not 2 GiB. And a request
  of \<open>2 ^ 32 + 100\<close> bytes that received 50 has the residual 50, not \<open>2 ^ 32 + 50\<close>.
\<close>

theorem C10_counterexample:
  "reachable ex_stale
   \<and> queued_reqs ex_stale = [2]
   \<and> unat (50 :: u64) < unat (queued_bytes (sd ex_stale))
   \<and> unat (resid (mem (snd (fio_vsyncio_end ex_stale 50)) 2)) = 150
   \<and> unat (queued_bytes (sd ex_stale)) - unat (50 :: u64) = 250
   \<and> reachable ex_big
   \<and> queued_reqs ex_big = [8, 9]
   \<and> unat (queued_bytes (sd ex_big)) = sum_list (queued_lens ex_big)
   \<and> unat (4294967296 :: u64) < unat (queued_bytes (sd ex_big))
   \<and> unat (resid (mem (snd (fio_vsyncio_end ex_big 4294967296)) 8))
       + unat (resid (mem (snd (fio_vsyncio_end ex_big 4294967296)) 9)) = 6442450944
   \<and> unat (queued_bytes (sd ex_big)) - unat (4294967296 :: u64) = 2147483648
   \<and> reachable ex_wide
   \<and> queued_reqs ex_wide = [10]
   \<and> unat (queued_bytes (sd ex_wide)) = sum_list (queued_lens ex_wide)
   \<and> unat (50 :: u64) < unat (queued_bytes (sd ex_wide))
   \<and> unat (resid (mem (snd (fio_vsyncio_end ex_wide 50)) 10)) = 50
   \<and> unat (queued_bytes (sd ex_wide)) - unat (50 :: u64) = 4294967346"
  using ex_big_short ex_stale_short ex_wide_short ex_reachable_more
  by (simp add: ex_big_lens ex_big_reqs ex_big_fields ex_stale_lens ex_stale_reqs ex_stale_fields
      ex_wide_lens ex_wide_reqs ex_wide_fields)

end
